theory Spec2Isabelle
  imports Complex_Main "HOL-Library.Signed_Division"
begin

section \<open>Forward attention kernels of \<^verbatim>\<open>flash_fwd_kernel.h\<close>\<close>

text \<open>
  The development follows \<^verbatim>\<open>csrc/flash_attn/src/flash_fwd_kernel.h\<close>. A CUDA block is
  modelled as a whole: the register fragments that CuTe distributes over the threads of a
  block are the tiles they partition, indexed by (row, column). C++ \<^verbatim>\<open>int\<close> and
  \<^verbatim>\<open>index_t\<close> values are integers of HOL (sequence lengths and strides stay far from the
  machine bounds); the C++ division \<^verbatim>\<open>/\<close> on them truncates towards zero and is written
  \<open>sdiv\<close>.
\<close>

subsection \<open>Compile-time constants, template flags and runtime parameters\<close>

text \<open>The constants of \<^verbatim>\<open>Kernel_traits\<close> that the kernels read. They are positive
  compile-time sizes, hence natural numbers.\<close>

record traits =
  kBlockM :: nat
  kBlockN :: nat
  kHeadDim :: nat
  kNWarps :: nat

text \<open>The boolean template parameters of the two attention kernels.\<close>

record flags =
  Is_dropout :: bool
  Is_causal :: bool
  Is_local :: bool
  Has_alibi :: bool
  Is_even_MN :: bool
  Is_even_K :: bool
  Return_softmax :: bool
  Split :: bool
  Append_KV :: bool

text \<open>The fields of \<^verbatim>\<open>Params\<close> that the kernels read (\<^verbatim>\<open>b\<close>, \<^verbatim>\<open>h\<close> and \<^verbatim>\<open>d\<close> carry
  the prefix \<open>params_\<close>). Pointers are not fields here: the tensors they point to are
  passed as memories.\<close>

record params =
  params_b :: int
  params_h :: int
  params_d :: int
  d_rounded :: int
  seqlen_q :: int
  seqlen_k :: int
  seqlen_knew :: int
  h_h_k_ratio :: int
  window_size_left :: int
  window_size_right :: int
  scale_softmax :: real
  scale_softmax_log2 :: real
  rp_dropout :: real
  q_batch_stride :: int
  q_row_stride :: int
  q_head_stride :: int
  k_batch_stride :: int
  k_row_stride :: int
  k_head_stride :: int
  v_batch_stride :: int
  v_row_stride :: int
  v_head_stride :: int
  o_batch_stride :: int
  o_row_stride :: int
  o_head_stride :: int
  knew_batch_stride :: int
  knew_row_stride :: int
  knew_head_stride :: int
  vnew_batch_stride :: int
  vnew_row_stride :: int
  vnew_head_stride :: int
  alibi_slopes_batch_stride :: int
  block_table_batch_stride :: int
  page_block_size :: int
  rotary_dim :: int
  is_rotary_interleaved :: bool
  num_splits :: int

text \<open>\<^verbatim>\<open>BlockInfo\<close> is declared in \<^verbatim>\<open>block_info.h\<close>, which is not part of the source
  file: the lengths it resolves for the batch element of the block and its two offset
  methods \<^verbatim>\<open>q_offset\<close> and \<^verbatim>\<open>k_offset\<close> (batch stride, row stride, batch index) are
  taken as given.\<close>

record block_info =
  actual_seqlen_q :: int
  actual_seqlen_k :: int
  seqlen_k_cache :: int
  q_offset :: "int \<Rightarrow> int \<Rightarrow> int \<Rightarrow> int"
  k_offset :: "int \<Rightarrow> int \<Rightarrow> int \<Rightarrow> int"

text \<open>\<^verbatim>\<open>cute::ceil_div\<close> belongs to the CuTe library, which is not part of the source
  file. CuTe computes it as \<^verbatim>\<open>(a + b - 1) / b\<close> with the truncating division of C++, the
  idiom that the source writes out at lines 611 and 1267. It is the ceiling of the quotient
  for \<open>a > - b\<close>; for a smaller \<open>a\<close> the truncation rounds towards zero.\<close>

definition ceil_div :: "int \<Rightarrow> int \<Rightarrow> int" where
  "ceil_div a b = (a + b - 1) sdiv b"

subsection \<open>Single-precision values\<close>

text \<open>
  A value of the accumulator type \<^verbatim>\<open>float\<close> is a real number, one of the two infinities
  or a NaN. Arithmetic on finite values is exact (no rounding, no overflow); on the special
  values it follows IEEE 754, with \<^verbatim>\<open>max\<close> returning the other operand when one is a NaN,
  as CUDA's \<^verbatim>\<open>fmaxf\<close> does. Signed zeros are not distinguished.
\<close>

datatype fl = Fin real | PInf | MInf | NaN

fun fl_neg :: "fl \<Rightarrow> fl" where
  "fl_neg (Fin a) = Fin (- a)"
| "fl_neg PInf = MInf"
| "fl_neg MInf = PInf"
| "fl_neg NaN = NaN"

fun fl_add :: "fl \<Rightarrow> fl \<Rightarrow> fl" where
  "fl_add NaN y = NaN"
| "fl_add x NaN = NaN"
| "fl_add (Fin a) (Fin c) = Fin (a + c)"
| "fl_add PInf MInf = NaN"
| "fl_add MInf PInf = NaN"
| "fl_add PInf y = PInf"
| "fl_add x PInf = PInf"
| "fl_add MInf y = MInf"
| "fl_add x MInf = MInf"

definition fl_sub :: "fl \<Rightarrow> fl \<Rightarrow> fl" where
  "fl_sub x y = fl_add x (fl_neg y)"

text \<open>The sign of a value that is not a NaN, as \<open>-1\<close>, \<open>0\<close> or \<open>1\<close>.\<close>

fun fl_sgn :: "fl \<Rightarrow> real" where
  "fl_sgn (Fin a) = sgn a"
| "fl_sgn PInf = 1"
| "fl_sgn MInf = - 1"
| "fl_sgn NaN = 0"

fun fl_mul :: "fl \<Rightarrow> fl \<Rightarrow> fl" where
  "fl_mul NaN y = NaN"
| "fl_mul x NaN = NaN"
| "fl_mul (Fin a) (Fin c) = Fin (a * c)"
| "fl_mul x y =
     (if fl_sgn x * fl_sgn y = 0 then NaN
      else if 0 < fl_sgn x * fl_sgn y then PInf else MInf)"

fun fl_div :: "fl \<Rightarrow> fl \<Rightarrow> fl" where
  "fl_div NaN y = NaN"
| "fl_div x NaN = NaN"
| "fl_div (Fin a) (Fin c) =
     (if c \<noteq> 0 then Fin (a / c) else if a = 0 then NaN else if 0 < a then PInf else MInf)"
| "fl_div (Fin a) y = Fin 0"
| "fl_div x (Fin c) = (if 0 \<le> fl_sgn x * c then x else fl_neg x)"
| "fl_div x y = NaN"

fun fl_max :: "fl \<Rightarrow> fl \<Rightarrow> fl" where
  "fl_max NaN y = y"
| "fl_max x NaN = x"
| "fl_max PInf y = PInf"
| "fl_max x PInf = PInf"
| "fl_max MInf y = y"
| "fl_max x MInf = x"
| "fl_max (Fin a) (Fin c) = Fin (max a c)"

text \<open>\<^verbatim>\<open>exp2f\<close>, \<^verbatim>\<open>expf\<close> and \<^verbatim>\<open>logf\<close>.\<close>

fun fl_exp2 :: "fl \<Rightarrow> fl" where
  "fl_exp2 (Fin a) = Fin (2 powr a)"
| "fl_exp2 PInf = PInf"
| "fl_exp2 MInf = Fin 0"
| "fl_exp2 NaN = NaN"

fun fl_exp :: "fl \<Rightarrow> fl" where
  "fl_exp (Fin a) = Fin (exp a)"
| "fl_exp PInf = PInf"
| "fl_exp MInf = Fin 0"
| "fl_exp NaN = NaN"

fun fl_log :: "fl \<Rightarrow> fl" where
  "fl_log (Fin a) = (if 0 < a then Fin (ln a) else if a = 0 then MInf else NaN)"
| "fl_log PInf = PInf"
| "fl_log MInf = NaN"
| "fl_log NaN = NaN"

text \<open>The comparison \<^verbatim>\<open>==\<close> of C++, which a NaN fails even against itself.\<close>

definition fl_eq :: "fl \<Rightarrow> fl \<Rightarrow> bool" where
  "fl_eq x y = (x \<noteq> NaN \<and> y \<noteq> NaN \<and> x = y)"

text \<open>Sum and maximum of \<open>g 0\<close>, ..., \<open>g (n - 1)\<close> on top of a start value, by the loop
  that accumulates them.\<close>

fun fl_sums :: "fl \<Rightarrow> nat \<Rightarrow> (nat \<Rightarrow> fl) \<Rightarrow> fl" where
  "fl_sums x 0 g = x"
| "fl_sums x (Suc n) g = fl_add (fl_sums x n g) (g n)"

definition fl_sum :: "nat \<Rightarrow> (nat \<Rightarrow> fl) \<Rightarrow> fl" where
  "fl_sum n g = fl_sums (Fin 0) n g"

fun fl_maxs :: "fl \<Rightarrow> nat \<Rightarrow> (nat \<Rightarrow> fl) \<Rightarrow> fl" where
  "fl_maxs x 0 g = x"
| "fl_maxs x (Suc n) g = fl_max (fl_maxs x n g) (g n)"

subsection \<open>Tiles and the operations on them\<close>

text \<open>A tile is indexed by row and column. A global tensor is a memory of real numbers
  addressed by the element offset from its pointer.\<close>

type_synonym tile = "nat \<Rightarrow> nat \<Rightarrow> fl"
type_synonym gmem = "int \<Rightarrow> real"

text \<open>Modelled from the spec: \<^verbatim>\<open>flash::copy\<close> is defined in \<^verbatim>\<open>utils.h\<close>, which is not
  part of the source file. It copies a tile from global to shared memory under element
  predicates: a row at or beyond \<open>max_MN\<close> (when the template flag \<open>Is_even_MN\<close> is off)
  is left as it was, or cleared under \<open>Clear_OOB_MN\<close>; a column at or beyond \<open>d\<close> (when
  \<open>Is_even_K\<close> is off) is cleared. The source tile starts at offset \<open>ptr\<close> and has the given
  row stride.\<close>

definition copy_g2s ::
    "bool \<Rightarrow> bool \<Rightarrow> bool \<Rightarrow> int \<Rightarrow> gmem \<Rightarrow> int \<Rightarrow> int \<Rightarrow> int \<Rightarrow> tile \<Rightarrow> tile" where
  "copy_g2s even_MN even_K Clear_OOB_MN dd mem ptr row_stride max_MN dst =
     (\<lambda>r c. if even_MN \<or> int r < max_MN
             then (if even_K \<or> int c < dd then Fin (mem (ptr + int r * row_stride + int c))
                   else Fin 0)
             else (if Clear_OOB_MN then Fin 0 else dst r c))"

text \<open>Modelled from the spec: \<^verbatim>\<open>flash::gemm\<close> and \<^verbatim>\<open>flash::gemm_rs\<close> are defined in
  \<^verbatim>\<open>utils.h\<close>. The first computes the logits \<open>Q K\<^sup>T\<close> of a tile into the cleared
  accumulator, the second adds \<open>P V\<close> to the output accumulator.\<close>

definition gemm :: "nat \<Rightarrow> tile \<Rightarrow> tile \<Rightarrow> tile" where
  "gemm kdim sQ sK = (\<lambda>i j. fl_sum kdim (\<lambda>c. fl_mul (sQ i c) (sK j c)))"

definition gemm_rs :: "nat \<Rightarrow> tile \<Rightarrow> tile \<Rightarrow> tile \<Rightarrow> tile" where
  "gemm_rs ncols acc_o rP sV =
     (\<lambda>i c. fl_add (acc_o i c) (fl_sum ncols (\<lambda>j. fl_mul (rP i j) (sV j c))))"

subsection \<open>Mask\<close>

text \<open>The arguments of the constructor of \<^verbatim>\<open>flash::Mask\<close>.\<close>

record mask =
  max_seqlen_k :: int
  max_seqlen_q :: int
  mask_window_size_left :: int
  mask_window_size_right :: int
  alibi_slope :: real

text \<open>Modelled from the spec: \<^verbatim>\<open>flash::Mask\<close> is defined in \<^verbatim>\<open>mask.h\<close>, which is not part of
  the source file. On the logit at absolute position (row, col) it adds the ALiBi bias
  \<open>slope * (col - (row + Sk - Sq))\<close> and sets the logit to minus infinity when the causal
  mask is requested and \<open>col > row + Sk - Sq\<close>, when attention is local and the column
  lies outside the window \<open>[row + Sk - Sq - window_left, row + Sk - Sq + window_right]\<close>,
  or when key lengths are ragged and \<open>col \<ge> Sk\<close>.\<close>

definition masked_out :: "bool \<Rightarrow> bool \<Rightarrow> bool \<Rightarrow> mask \<Rightarrow> int \<Rightarrow> int \<Rightarrow> bool" where
  "masked_out Causal_mask local even_MN mk row col =
     ((Causal_mask \<and> col > row + max_seqlen_k mk - max_seqlen_q mk)
      \<or> (local \<and> (col < row + max_seqlen_k mk - max_seqlen_q mk - mask_window_size_left mk
                 \<or> col > row + max_seqlen_k mk - max_seqlen_q mk + mask_window_size_right mk))
      \<or> (\<not> even_MN \<and> col \<ge> max_seqlen_k mk))"

definition alibi_bias :: "mask \<Rightarrow> int \<Rightarrow> int \<Rightarrow> real" where
  "alibi_bias mk row col =
     alibi_slope mk * real_of_int (col - (row + max_seqlen_k mk - max_seqlen_q mk))"

definition apply_mask ::
    "flags \<Rightarrow> mask \<Rightarrow> bool \<Rightarrow> bool \<Rightarrow> tile \<Rightarrow> int \<Rightarrow> int \<Rightarrow> tile" where
  "apply_mask f mk Causal_mask even_MN acc_s col_idx_offset row_idx_offset =
     (\<lambda>i j. let row = row_idx_offset + int i; col = col_idx_offset + int j
             in if masked_out Causal_mask (Is_local f) even_MN mk row col then MInf
                else if Has_alibi f then fl_add (acc_s i j) (Fin (alibi_bias mk row col))
                else acc_s i j)"

subsection \<open>Online softmax\<close>

text \<open>The state of \<^verbatim>\<open>flash::Softmax\<close>: the running maximum and the running denominator of
  every row of the query tile.\<close>

record softmax =
  row_max :: "nat \<Rightarrow> fl"
  row_sum :: "nat \<Rightarrow> fl"

text \<open>Modelled from the spec: \<^verbatim>\<open>flash::Softmax\<close> is defined in \<^verbatim>\<open>softmax.h\<close>, which is not
  part of the source file. \<^verbatim>\<open>softmax_rescale_o\<close> updates the running maximum \<open>m\<close> of the
  logits and the denominator, rescales the output accumulator by
  \<open>2 ^ ((m_old - m_new) * log2_scale)\<close> and turns the logits \<open>S\<close> into
  \<open>P = 2 ^ (S * log2_scale - m_new * log2_scale)\<close>. A maximum that is still minus infinity
  counts as \<open>0\<close> in the exponent of \<open>P\<close>, and under \<open>Check_inf\<close> also in the rescaling
  factor. The result is the new state, \<open>P\<close> and the rescaled accumulator.\<close>

definition scale_apply_exp2 :: "nat \<Rightarrow> tile \<Rightarrow> (nat \<Rightarrow> fl) \<Rightarrow> real \<Rightarrow> tile" where
  "scale_apply_exp2 ncols acc_s mx scale =
     (\<lambda>i j. let max_scaled = (if fl_eq (mx i) MInf then Fin 0 else fl_mul (mx i) (Fin scale))
             in fl_exp2 (fl_sub (fl_mul (acc_s i j) (Fin scale)) max_scaled))"

definition softmax_rescale_o ::
    "bool \<Rightarrow> bool \<Rightarrow> nat \<Rightarrow> softmax \<Rightarrow> tile \<Rightarrow> tile \<Rightarrow> real \<Rightarrow> softmax \<times> tile \<times> tile" where
  "softmax_rescale_o Is_first Check_inf ncols sm acc_s acc_o softmax_scale_log2 =
     (if Is_first then
        (let mx = (\<lambda>i. fl_maxs MInf ncols (acc_s i));
             rP = scale_apply_exp2 ncols acc_s mx softmax_scale_log2
         in (\<lparr>row_max = mx, row_sum = (\<lambda>i. fl_sum ncols (rP i))\<rparr>, rP, acc_o))
      else
        (let scores_max_prev = row_max sm;
             mx = (\<lambda>i. fl_maxs (scores_max_prev i) ncols (acc_s i));
             scores_scale = (\<lambda>i.
               let scores_max_cur = (if Check_inf \<and> fl_eq (mx i) MInf then Fin 0 else mx i)
               in fl_exp2 (fl_mul (fl_sub (scores_max_prev i) scores_max_cur)
                                  (Fin softmax_scale_log2)));
             rP = scale_apply_exp2 ncols acc_s mx softmax_scale_log2
         in (\<lparr>row_max = mx,
              row_sum = (\<lambda>i. fl_add (fl_mul (row_sum sm i) (scores_scale i))
                                     (fl_sum ncols (rP i)))\<rparr>,
             rP,
             (\<lambda>i c. fl_mul (acc_o i c) (scores_scale i)))))"

text \<open>Modelled from the spec: \<^verbatim>\<open>normalize_softmax_lse\<close> of \<^verbatim>\<open>softmax.h\<close> divides every row
  of the accumulator by its denominator (times \<open>rp_dropout\<close> under dropout) and returns
  the log-sum-exp \<open>m * softmax_scale + log l\<close> of the row. A row whose denominator is zero
  or a NaN is left undivided and gets the sentinel: plus infinity, or minus infinity for a
  split.\<close>

definition normalize_softmax_lse ::
    "bool \<Rightarrow> bool \<Rightarrow> softmax \<Rightarrow> tile \<Rightarrow> real \<Rightarrow> real \<Rightarrow> (nat \<Rightarrow> fl) \<times> tile" where
  "normalize_softmax_lse dropout split sm acc_o softmax_scale rp =
     (let degenerate = (\<lambda>i. fl_eq (row_sum sm i) (Fin 0) \<or> \<not> fl_eq (row_sum sm i) (row_sum sm i));
          inv_sum = (\<lambda>i. if degenerate i then Fin 1 else fl_div (Fin 1) (row_sum sm i));
          lse = (\<lambda>i. if degenerate i then (if split then MInf else PInf)
                      else fl_add (fl_mul (row_max sm i) (Fin softmax_scale))
                                  (fl_log (row_sum sm i)));
          scale = (\<lambda>i. if \<not> dropout then inv_sum i else fl_mul (inv_sum i) (Fin rp))
      in (lse, (\<lambda>i c. fl_mul (acc_o i c) (scale i))))"

subsection \<open>Global memory, kernel state and kernel results\<close>

text \<open>The tensors behind the pointers of \<^verbatim>\<open>Params\<close>. A pointer that may be null is an
  option.\<close>

record gmemory =
  q_mem :: gmem
  k_mem :: gmem
  v_mem :: gmem
  knew_mem :: gmem
  vnew_mem :: gmem
  rotary_cos :: gmem
  rotary_sin :: gmem
  alibi_slopes :: "(int \<Rightarrow> real) option"
  block_table :: "(int \<Rightarrow> int) option"
  cache_batch_idx :: "(int \<Rightarrow> int) option"

text \<open>What the K/V loop of a block carries from one iteration to the next: the offsets of
  the K and V tile pointers \<^verbatim>\<open>tKgK\<close> and \<^verbatim>\<open>tVgV\<close> from \<^verbatim>\<open>k_ptr\<close> and \<^verbatim>\<open>v_ptr\<close>, the
  shared-memory tiles, the output accumulator and the softmax state.\<close>

record attn_state =
  st_tKgK :: int
  st_tVgV :: int
  st_sK :: tile
  st_sV :: tile
  st_acc_o :: tile
  st_softmax :: softmax

datatype exit_path = Exit_beyond_seqlen_q | Exit_empty_range | Exit_epilogue

text \<open>What a block leaves in global memory: the words of \<^verbatim>\<open>rng_state\<close>, and the elements
  it stores through the tensor views \<^verbatim>\<open>gO\<close> (or \<^verbatim>\<open>gOaccum\<close>) and \<^verbatim>\<open>gLSE\<close> (or
  \<^verbatim>\<open>gLSEaccum\<close>) of its tile: \<open>None\<close> is an element the block does not write.\<close>

record attn_out =
  out_rng_state :: "(nat \<times> nat) option"
  out_O :: "nat \<Rightarrow> nat \<Rightarrow> fl option"
  out_LSE :: "nat \<Rightarrow> fl option"
  out_exit :: exit_path

text \<open>The predicated store of a register tile (\<^verbatim>\<open>flash::copy\<close> with both clearing flags
  off), and the loop that stores one value per row below \<open>max_MN\<close>.\<close>

definition store_tile ::
    "bool \<Rightarrow> bool \<Rightarrow> traits \<Rightarrow> int \<Rightarrow> int \<Rightarrow> tile \<Rightarrow> nat \<Rightarrow> nat \<Rightarrow> fl option" where
  "store_tile even_MN even_K t dd max_MN src =
     (\<lambda>r c. if r < kBlockM t \<and> c < kHeadDim t \<and> (even_MN \<or> int r < max_MN)
                \<and> (even_K \<or> int c < dd)
             then Some (src r c) else None)"

definition store_rows :: "traits \<Rightarrow> int \<Rightarrow> (nat \<Rightarrow> fl) \<Rightarrow> nat \<Rightarrow> fl option" where
  "store_rows t max_MN src =
     (\<lambda>r. if r < kBlockM t \<and> int r < max_MN then Some (src r) else None)"

subsection \<open>Pointer arithmetic on the K and V tiles\<close>

text \<open>Moving a tile pointer from K/V tile \<open>n_cur\<close> to tile \<open>n_cur - 1\<close>: by one tile of rows
  without a block table, and through the page table with one.\<close>

definition advance_paged ::
    "(int \<Rightarrow> int) \<Rightarrow> traits \<Rightarrow> params \<Rightarrow> int \<Rightarrow> int \<Rightarrow> int \<Rightarrow> int \<Rightarrow> int" where
  "advance_paged bt t p batch_stride row_stride n_cur ptr =
     (let block_table_idx_cur = (n_cur * int (kBlockN t)) sdiv page_block_size p;
          block_table_offset_cur = n_cur * int (kBlockN t) - block_table_idx_cur * page_block_size p;
          block_table_idx_next = ((n_cur - 1) * int (kBlockN t)) sdiv page_block_size p;
          block_table_offset_next =
            (n_cur - 1) * int (kBlockN t) - block_table_idx_next * page_block_size p
      in ptr + (bt block_table_idx_next - bt block_table_idx_cur) * batch_stride
             + (block_table_offset_next - block_table_offset_cur) * row_stride)"

definition advance_tile ::
    "(int \<Rightarrow> int) option \<Rightarrow> traits \<Rightarrow> params \<Rightarrow> int \<Rightarrow> int \<Rightarrow> int \<Rightarrow> int \<Rightarrow> int" where
  "advance_tile btab t p batch_stride row_stride n_cur ptr =
     (case btab of
        None \<Rightarrow> ptr + (- (int (kBlockN t) * row_stride))
      | Some bt \<Rightarrow> advance_paged bt t p batch_stride row_stride n_cur ptr)"

subsection \<open>The two K/V loops\<close>

definition n_masking_steps :: "flags \<Rightarrow> traits \<Rightarrow> nat" where
  "n_masking_steps f t =
     (if \<not> Is_causal f \<and> \<not> Is_local f then 1
      else if Is_even_MN f \<and> Is_causal f
           then nat (ceil_div (int (kBlockM t)) (int (kBlockN t)))
           else nat (ceil_div (int (kBlockM t)) (int (kBlockN t)) + 1))"

text \<open>The body of the first loop, over the tiles that need masking. \<open>btab\<close> is the block
  table (absent in the dense kernel), \<open>Check_inf\<close> the flag the kernel passes to the
  softmax, and \<open>dropout\<close> the dropout of the dense kernel applied to \<open>P\<close> (the identity where
  the kernel has none; \<^verbatim>\<open>dropout.h\<close> is not part of the source file). The debug store of
  \<open>P\<close> under \<open>Return_softmax\<close> feeds neither \<open>O\<close> nor the log-sum-exp and is left out.\<close>

definition masking_body ::
    "flags \<Rightarrow> traits \<Rightarrow> params \<Rightarrow> block_info \<Rightarrow> gmemory \<Rightarrow> mask \<Rightarrow> bool
       \<Rightarrow> (int \<Rightarrow> tile \<Rightarrow> tile) \<Rightarrow> tile \<Rightarrow> int \<Rightarrow> int \<Rightarrow> nat \<Rightarrow> int
       \<Rightarrow> attn_state \<Rightarrow> attn_state" where
  "masking_body f t p binfo mem mk Check_inf dropout sQ m_block n_block_min masking_step n_block st =
     (let tVgV = (if masking_step > 0
                  then advance_tile (block_table mem) t p (v_batch_stride p) (v_row_stride p)
                         (n_block + 1) (st_tVgV st)
                  else st_tVgV st);
          sV = (if masking_step > 0
                then copy_g2s True (Is_even_K f) False (params_d p) (v_mem mem) tVgV
                       (v_row_stride p) 0 (st_sV st)
                else copy_g2s (Is_even_MN f) (Is_even_K f) True (params_d p) (v_mem mem) tVgV
                       (v_row_stride p) (actual_seqlen_k binfo - n_block * int (kBlockN t))
                       (st_sV st));
          acc_s = gemm (kHeadDim t) sQ (st_sK st);
          acc_s = apply_mask f mk (Is_causal f) (Is_even_MN f) acc_s
                    (n_block * int (kBlockN t)) (m_block * int (kBlockM t));
          tKgK = (if n_block > n_block_min
                  then advance_tile (block_table mem) t p (k_batch_stride p) (k_row_stride p)
                         n_block (st_tKgK st)
                  else st_tKgK st);
          sK = (if n_block > n_block_min
                then copy_g2s True (Is_even_K f) False (params_d p) (k_mem mem) tKgK
                       (k_row_stride p) 0 (st_sK st)
                else st_sK st);
          (sm, rP, acc_o) = softmax_rescale_o (masking_step = 0) Check_inf (kBlockN t)
                              (st_softmax st) acc_s (st_acc_o st) (scale_softmax_log2 p);
          rP = dropout n_block rP;
          acc_o = gemm_rs (kBlockN t) acc_o rP sV
      in \<lparr>st_tKgK = tKgK, st_tVgV = tVgV, st_sK = sK, st_sV = sV, st_acc_o = acc_o,
          st_softmax = sm\<rparr>)"

text \<open>The body of the second loop, over the tiles that need no causal or key-length
  masking.\<close>

definition main_body ::
    "flags \<Rightarrow> traits \<Rightarrow> params \<Rightarrow> gmemory \<Rightarrow> mask \<Rightarrow> (int \<Rightarrow> tile \<Rightarrow> tile) \<Rightarrow> tile
       \<Rightarrow> int \<Rightarrow> int \<Rightarrow> int \<Rightarrow> attn_state \<Rightarrow> attn_state" where
  "main_body f t p mem mk dropout sQ m_block n_block_min n_block st =
     (let tVgV = advance_tile (block_table mem) t p (v_batch_stride p) (v_row_stride p)
                   (n_block + 1) (st_tVgV st);
          sV = copy_g2s True (Is_even_K f) False (params_d p) (v_mem mem) tVgV
                 (v_row_stride p) 0 (st_sV st);
          acc_s = gemm (kHeadDim t) sQ (st_sK st);
          tKgK = (if n_block > n_block_min
                  then advance_tile (block_table mem) t p (k_batch_stride p) (k_row_stride p)
                         n_block (st_tKgK st)
                  else st_tKgK st);
          sK = (if n_block > n_block_min
                then copy_g2s True (Is_even_K f) False (params_d p) (k_mem mem) tKgK
                       (k_row_stride p) 0 (st_sK st)
                else st_sK st);
          acc_s = apply_mask f mk False True acc_s
                    (n_block * int (kBlockN t)) (m_block * int (kBlockM t));
          (sm, rP, acc_o) = softmax_rescale_o False (Is_local f) (kBlockN t)
                              (st_softmax st) acc_s (st_acc_o st) (scale_softmax_log2 p);
          rP = dropout n_block rP;
          acc_o = gemm_rs (kBlockN t) acc_o rP sV
      in \<lparr>st_tKgK = tKgK, st_tVgV = tVgV, st_sK = sK, st_sV = sV, st_acc_o = acc_o,
          st_softmax = sm\<rparr>)"

text \<open>The first loop runs \<open>masking_step\<close> from \<open>0\<close> below \<open>n_masking_steps\<close>; with more than
  one masking step it leaves early once \<open>n_block\<close> has reached \<open>n_block_min\<close>. Either way
  \<open>n_block\<close> is decremented after every body. The second loop runs \<open>n_block\<close> down to
  \<open>n_block_min\<close>.\<close>

function masking_loop ::
    "(nat \<Rightarrow> int \<Rightarrow> attn_state \<Rightarrow> attn_state) \<Rightarrow> nat \<Rightarrow> int \<Rightarrow> nat \<Rightarrow> int \<Rightarrow> attn_state
       \<Rightarrow> int \<times> attn_state" where
  "masking_loop body nsteps n_block_min masking_step n_block st =
     (if masking_step < nsteps
      then (let st' = body masking_step n_block st
            in if nsteps > 1 \<and> n_block \<le> n_block_min then (n_block - 1, st')
               else masking_loop body nsteps n_block_min (Suc masking_step) (n_block - 1) st')
      else (n_block, st))"
  by pat_completeness auto
termination
  by (relation "measure (\<lambda>(body, nsteps, n_block_min, masking_step, n_block, st).
                           nsteps - masking_step)") auto

declare masking_loop.simps [simp del]

function main_loop ::
    "(int \<Rightarrow> attn_state \<Rightarrow> attn_state) \<Rightarrow> int \<Rightarrow> int \<Rightarrow> attn_state \<Rightarrow> int \<times> attn_state" where
  "main_loop body n_block_min n_block st =
     (if n_block \<ge> n_block_min
      then main_loop body n_block_min (n_block - 1) (body n_block st)
      else (n_block, st))"
  by pat_completeness auto
termination
  by (relation "measure (\<lambda>(body, n_block_min, n_block, st). nat (n_block - n_block_min + 1))")
     auto

declare main_loop.simps [simp del]

subsection \<open>The range of K/V tiles of the dense kernel\<close>

text \<open>Lines 75 to 83 of \<^verbatim>\<open>compute_attn_1rowblock\<close>.\<close>

definition n_block_min_dense :: "flags \<Rightarrow> traits \<Rightarrow> params \<Rightarrow> block_info \<Rightarrow> int \<Rightarrow> int" where
  "n_block_min_dense f t p binfo m_block =
     (if \<not> Is_local f then 0
      else max 0 ((m_block * int (kBlockM t) + actual_seqlen_k binfo - actual_seqlen_q binfo
                     - window_size_left p) sdiv int (kBlockN t)))"

definition n_block_max_dense :: "flags \<Rightarrow> traits \<Rightarrow> params \<Rightarrow> block_info \<Rightarrow> int \<Rightarrow> int" where
  "n_block_max_dense f t p binfo m_block =
     (let n_block_max = ceil_div (actual_seqlen_k binfo) (int (kBlockN t))
      in if Is_causal f \<or> Is_local f
         then min n_block_max
                (ceil_div ((m_block + 1) * int (kBlockM t) + actual_seqlen_k binfo
                             - actual_seqlen_q binfo + window_size_right p) (int (kBlockN t)))
         else n_block_max)"

subsection \<open>The dense kernel \<^verbatim>\<open>compute_attn_1rowblock\<close>\<close>

text \<open>The stale contents of the shared-memory tiles when the block starts.\<close>

record smem =
  smem_Q :: tile
  smem_K :: tile
  smem_V :: tile

text \<open>The offsets of the Q tile and of the last K and V tile (lines 145 to 155), and of the
  output tile and its log-sum-exp rows (lines 90 to 97 and 526 to 528).\<close>

definition row_offset_q :: "traits \<Rightarrow> params \<Rightarrow> block_info \<Rightarrow> int \<Rightarrow> int \<Rightarrow> int \<Rightarrow> int" where
  "row_offset_q t p binfo bidb bidh m_block =
     q_offset binfo (q_batch_stride p) (q_row_stride p) bidb
       + m_block * int (kBlockM t) * q_row_stride p + bidh * q_head_stride p"

definition row_offset_k :: "traits \<Rightarrow> params \<Rightarrow> block_info \<Rightarrow> int \<Rightarrow> int \<Rightarrow> int \<Rightarrow> int" where
  "row_offset_k t p binfo bidb bidh n_block_max =
     k_offset binfo (k_batch_stride p) (k_row_stride p) bidb
       + (n_block_max - 1) * int (kBlockN t) * k_row_stride p
       + (bidh sdiv h_h_k_ratio p) * k_head_stride p"

definition row_offset_v :: "traits \<Rightarrow> params \<Rightarrow> block_info \<Rightarrow> int \<Rightarrow> int \<Rightarrow> int \<Rightarrow> int" where
  "row_offset_v t p binfo bidb bidh n_block_max =
     k_offset binfo (v_batch_stride p) (v_row_stride p) bidb
       + (n_block_max - 1) * int (kBlockN t) * v_row_stride p
       + (bidh sdiv h_h_k_ratio p) * v_head_stride p"

definition row_offset_o :: "traits \<Rightarrow> params \<Rightarrow> block_info \<Rightarrow> int \<Rightarrow> int \<Rightarrow> int \<Rightarrow> int" where
  "row_offset_o t p binfo bidb bidh m_block =
     q_offset binfo (o_batch_stride p) (o_row_stride p) bidb
       + m_block * int (kBlockM t) * o_row_stride p + bidh * o_head_stride p"

definition row_offset_lse :: "traits \<Rightarrow> params \<Rightarrow> int \<Rightarrow> int \<Rightarrow> int \<Rightarrow> int" where
  "row_offset_lse t p bidb bidh m_block =
     (bidb * params_h p + bidh) * seqlen_q p + m_block * int (kBlockM t)"

text \<open>The ALiBi slope handed to the mask (line 317).\<close>

definition alibi_slope_dense :: "flags \<Rightarrow> params \<Rightarrow> gmemory \<Rightarrow> int \<Rightarrow> int \<Rightarrow> real" where
  "alibi_slope_dense f p mem bidb bidh =
     (case alibi_slopes mem of
        None \<Rightarrow> 0
      | Some slopes \<Rightarrow>
          if \<not> Has_alibi f then 0
          else slopes (bidb * alibi_slopes_batch_stride p + bidh) / scale_softmax p)"

definition make_mask :: "params \<Rightarrow> block_info \<Rightarrow> real \<Rightarrow> mask" where
  "make_mask p binfo slope =
     \<lparr>max_seqlen_k = actual_seqlen_k binfo, max_seqlen_q = actual_seqlen_q binfo,
      mask_window_size_left = window_size_left p, mask_window_size_right = window_size_right p,
      alibi_slope = slope\<rparr>"

text \<open>
  The kernel of one block. \<open>seed_offset\<close> is the unpacked Philox pair, \<open>blockIdx\<close> the
  index of the block in the grid and \<open>rng\<close> the content of \<^verbatim>\<open>rng_state\<close> before the block
  runs. The write to \<^verbatim>\<open>rng_state\<close> is that of thread \<open>0\<close>, which every block has. The
  steps follow the source: the save of the generator state, the return of a query tile
  beyond the sequence, the tile range and its early exit, the prologue loads, the two
  loops and the epilogue.
\<close>

definition compute_attn_1rowblock ::
    "flags \<Rightarrow> traits \<Rightarrow> params \<Rightarrow> block_info \<Rightarrow> gmemory \<Rightarrow> smem \<Rightarrow> nat \<times> nat
       \<Rightarrow> int \<times> int \<times> int \<Rightarrow> (nat \<times> nat) option \<Rightarrow> (int \<Rightarrow> int \<Rightarrow> tile \<Rightarrow> tile)
       \<Rightarrow> int \<Rightarrow> int \<Rightarrow> int \<Rightarrow> attn_out" where
  "compute_attn_1rowblock f t p binfo mem sm0 seed_offset blockIdx rng apply_dropout
       bidb bidh m_block =
     (let rng = (if Is_dropout f \<and> blockIdx = (0, 0, 0) then Some seed_offset else rng)
      in if m_block * int (kBlockM t) \<ge> actual_seqlen_q binfo
         then \<lparr>out_rng_state = rng, out_O = (\<lambda>r c. None), out_LSE = (\<lambda>r. None),
               out_exit = Exit_beyond_seqlen_q\<rparr>
         else
           (let n_block_min = n_block_min_dense f t p binfo m_block;
                n_block_max = n_block_max_dense f t p binfo m_block;
                max_M = actual_seqlen_q binfo - m_block * int (kBlockM t)
            in if (Is_causal f \<or> Is_local f \<or> \<not> Is_even_MN f) \<and> n_block_max \<le> n_block_min
               then \<lparr>out_rng_state = rng,
                     out_O = store_tile (Is_even_MN f) (Is_even_K f) t (params_d p) max_M
                               (\<lambda>r c. Fin 0),
                     out_LSE = store_rows t max_M (\<lambda>r. PInf),
                     out_exit = Exit_empty_range\<rparr>
               else
                 (let sQ = copy_g2s (Is_even_MN f) (Is_even_K f) False (params_d p) (q_mem mem)
                             (row_offset_q t p binfo bidb bidh m_block) (q_row_stride p) max_M
                             (smem_Q sm0);
                      n_block = n_block_max - 1;
                      tKgK = row_offset_k t p binfo bidb bidh n_block_max;
                      sK = copy_g2s (Is_even_MN f) (Is_even_K f) False (params_d p) (k_mem mem)
                             tKgK (k_row_stride p)
                             (actual_seqlen_k binfo - n_block * int (kBlockN t)) (smem_K sm0);
                      st = \<lparr>st_tKgK = tKgK,
                            st_tVgV = row_offset_v t p binfo bidb bidh n_block_max,
                            st_sK = sK, st_sV = smem_V sm0, st_acc_o = (\<lambda>r c. Fin 0),
                            st_softmax = \<lparr>row_max = (\<lambda>r. MInf), row_sum = (\<lambda>r. Fin 0)\<rparr>\<rparr>;
                      mk = make_mask p binfo (alibi_slope_dense f p mem bidb bidh);
                      dropout = (\<lambda>n rP. if Is_dropout f then apply_dropout m_block n rP else rP);
                      memd = mem\<lparr>block_table := None\<rparr>;
                      (n_block, st) =
                        masking_loop
                          (masking_body f t p binfo memd mk (Is_causal f \<or> Is_local f) dropout
                             sQ m_block n_block_min)
                          (n_masking_steps f t) n_block_min 0 n_block st;
                      (n_block, st) =
                        main_loop (main_body f t p memd mk dropout sQ m_block n_block_min)
                          n_block_min n_block st;
                      (lse, acc_o) = normalize_softmax_lse (Is_dropout f) False (st_softmax st)
                                       (st_acc_o st) (scale_softmax p) (rp_dropout p)
                  in \<lparr>out_rng_state = rng,
                      out_O = store_tile (Is_even_MN f) (Is_even_K f) t (params_d p) max_M acc_o,
                      out_LSE = store_rows t max_M lse,
                      out_exit = Exit_epilogue\<rparr>)))"

subsection \<open>The split kernel \<^verbatim>\<open>compute_attn_1rowblock_splitkv\<close>\<close>

text \<open>The tile range of a split (lines 611 to 621).\<close>

definition n_blocks_per_split :: "traits \<Rightarrow> params \<Rightarrow> int \<Rightarrow> int" where
  "n_blocks_per_split t p num_n_splits =
     ((seqlen_k p + int (kBlockN t) - 1) sdiv int (kBlockN t) + num_n_splits - 1)
       sdiv num_n_splits"

definition n_block_min_split ::
    "flags \<Rightarrow> traits \<Rightarrow> params \<Rightarrow> block_info \<Rightarrow> int \<Rightarrow> int \<Rightarrow> int \<Rightarrow> int" where
  "n_block_min_split f t p binfo m_block n_split_idx num_n_splits =
     (if \<not> Is_local f then n_split_idx * n_blocks_per_split t p num_n_splits
      else max (n_split_idx * n_blocks_per_split t p num_n_splits)
             ((m_block * int (kBlockM t) + actual_seqlen_k binfo - actual_seqlen_q binfo
                 - window_size_left p) sdiv int (kBlockN t)))"

definition n_block_max_split ::
    "flags \<Rightarrow> traits \<Rightarrow> params \<Rightarrow> block_info \<Rightarrow> int \<Rightarrow> int \<Rightarrow> int \<Rightarrow> int" where
  "n_block_max_split f t p binfo m_block n_split_idx num_n_splits =
     (let n_block_max = min (ceil_div (actual_seqlen_k binfo) (int (kBlockN t)))
                          ((n_split_idx + 1) * n_blocks_per_split t p num_n_splits)
      in if Is_causal f \<or> Is_local f
         then min n_block_max
                (ceil_div ((m_block + 1) * int (kBlockM t) + actual_seqlen_k binfo
                             - actual_seqlen_q binfo + window_size_right p) (int (kBlockN t)))
         else n_block_max)"

text \<open>The offsets of the partial output tile and of its log-sum-exp rows (lines 630 to
  632).\<close>

definition row_offset_oaccum :: "traits \<Rightarrow> params \<Rightarrow> int \<Rightarrow> int \<Rightarrow> int \<Rightarrow> int \<Rightarrow> int" where
  "row_offset_oaccum t p n_split_idx bidb bidh m_block =
     (((n_split_idx * params_b p + bidb) * params_h p + bidh) * seqlen_q p
        + m_block * int (kBlockM t)) * d_rounded p"

definition row_offset_lseaccum :: "traits \<Rightarrow> params \<Rightarrow> int \<Rightarrow> int \<Rightarrow> int \<Rightarrow> int \<Rightarrow> int" where
  "row_offset_lseaccum t p n_split_idx bidb bidh m_block =
     ((n_split_idx * params_b p + bidb) * params_h p + bidh) * seqlen_q p
       + m_block * int (kBlockM t)"

text \<open>The row of the block table of the batch element (line 691), and the offsets of the
  last K and V tile, through the page table when there is one (lines 693 to 710).\<close>

definition block_table_row :: "params \<Rightarrow> gmemory \<Rightarrow> int \<Rightarrow> (int \<Rightarrow> int) option" where
  "block_table_row p mem bidb =
     (case block_table mem of
        None \<Rightarrow> None
      | Some tbl \<Rightarrow> Some (\<lambda>i. tbl (bidb * block_table_batch_stride p + i)))"

definition row_offset_paged ::
    "(int \<Rightarrow> int) \<Rightarrow> traits \<Rightarrow> params \<Rightarrow> int \<Rightarrow> int \<Rightarrow> int \<Rightarrow> int \<Rightarrow> int \<Rightarrow> int" where
  "row_offset_paged bt t p batch_stride row_stride head_stride bidh n_block_max =
     (let block_table_idx = ((n_block_max - 1) * int (kBlockN t)) sdiv page_block_size p;
          block_table_offset = (n_block_max - 1) * int (kBlockN t)
                                 - block_table_idx * page_block_size p
      in bt block_table_idx * batch_stride + block_table_offset * row_stride
           + (bidh sdiv h_h_k_ratio p) * head_stride)"

definition row_offset_k_split ::
    "traits \<Rightarrow> params \<Rightarrow> block_info \<Rightarrow> (int \<Rightarrow> int) option \<Rightarrow> int \<Rightarrow> int \<Rightarrow> int \<Rightarrow> int" where
  "row_offset_k_split t p binfo btab bidb_cache bidh n_block_max =
     (case btab of
        None \<Rightarrow> row_offset_k t p binfo bidb_cache bidh n_block_max
      | Some bt \<Rightarrow> row_offset_paged bt t p (k_batch_stride p) (k_row_stride p) (k_head_stride p)
                     bidh n_block_max)"

definition row_offset_v_split ::
    "traits \<Rightarrow> params \<Rightarrow> block_info \<Rightarrow> (int \<Rightarrow> int) option \<Rightarrow> int \<Rightarrow> int \<Rightarrow> int \<Rightarrow> int" where
  "row_offset_v_split t p binfo btab bidb_cache bidh n_block_max =
     (case btab of
        None \<Rightarrow> row_offset_v t p binfo bidb_cache bidh n_block_max
      | Some bt \<Rightarrow> row_offset_paged bt t p (v_batch_stride p) (v_row_stride p) (v_head_stride p)
                     bidh n_block_max)"

text \<open>The offsets of the tiles of the new keys and values (lines 823 to 838): the tile
  views are shifted back by \<open>seqlen_k_cache\<close> rows, to line up with the cache.\<close>

definition row_offset_knew :: "traits \<Rightarrow> params \<Rightarrow> block_info \<Rightarrow> int \<Rightarrow> int \<Rightarrow> int \<Rightarrow> int" where
  "row_offset_knew t p binfo bidb bidh n_block_max =
     k_offset binfo (knew_batch_stride p) (knew_row_stride p) bidb
       + ((n_block_max - 1) * int (kBlockN t)) * knew_row_stride p
       + (bidh sdiv h_h_k_ratio p) * knew_head_stride p"

definition row_offset_vnew :: "traits \<Rightarrow> params \<Rightarrow> block_info \<Rightarrow> int \<Rightarrow> int \<Rightarrow> int \<Rightarrow> int" where
  "row_offset_vnew t p binfo bidb bidh n_block_max =
     k_offset binfo (vnew_batch_stride p) (vnew_row_stride p) bidb
       + ((n_block_max - 1) * int (kBlockN t)) * vnew_row_stride p
       + (bidh sdiv h_h_k_ratio p) * vnew_head_stride p"

subsubsection \<open>Appending the new keys and values\<close>

text \<open>\<^verbatim>\<open>rotary.h\<close> is not part of the source file: the rotation of one row is a parameter.
  It takes the interleaving flag, \<open>rotary_dim\<close>, the row, and the row of cosines and of
  sines the copy reads for it, and gives the rotated row.\<close>

type_synonym rotate_fn =
  "bool \<Rightarrow> int \<Rightarrow> (nat \<Rightarrow> real) \<Rightarrow> (nat \<Rightarrow> real) \<Rightarrow> (nat \<Rightarrow> real) \<Rightarrow> nat \<Rightarrow> real"

text \<open>Modelled from the spec: \<^verbatim>\<open>copy_w_min_idx\<close>, \<^verbatim>\<open>copy_rotary_interleaved\<close> and
  \<^verbatim>\<open>copy_rotary_contiguous\<close> are not part of the source file. They copy the rows
  \<open>min_MN \<le> r < max_MN\<close> of a tile, under the column predicate, to the destination tile in
  global memory; \<open>vals r c\<close> is the element to store. The stores are made one after the
  other.\<close>

definition store_g ::
    "traits \<Rightarrow> bool \<Rightarrow> int \<Rightarrow> int \<Rightarrow> int \<Rightarrow> (nat \<Rightarrow> nat \<Rightarrow> real) \<Rightarrow> int \<Rightarrow> int \<Rightarrow> gmem \<Rightarrow> gmem" where
  "store_g t even_K dd max_MN min_MN vals ptr row_stride mem =
     fold (\<lambda>(r, c) m. if min_MN \<le> int r \<and> int r < max_MN \<and> (even_K \<or> int c < dd)
                       then m(ptr + int r * row_stride + int c := vals r c) else m)
       (List.product [0..<kBlockN t] [0..<kHeadDim t]) mem"

text \<open>The pointers the append loop moves and the two caches it writes.\<close>

record append_state =
  ap_tKgK :: int
  ap_tVgV :: int
  ap_tKgKnew :: int
  ap_tVgVnew :: int
  ap_tRgCos :: int
  ap_k_mem :: gmem
  ap_v_mem :: gmem

text \<open>The body of the append loop (lines 846 to 893).\<close>

definition append_body ::
    "flags \<Rightarrow> traits \<Rightarrow> params \<Rightarrow> block_info \<Rightarrow> gmemory \<Rightarrow> (int \<Rightarrow> int) option \<Rightarrow> rotate_fn
       \<Rightarrow> int \<Rightarrow> int \<Rightarrow> append_state \<Rightarrow> append_state" where
  "append_body f t p binfo mem btab rotary n_block_copy_min n_block a =
     (let max_MN = actual_seqlen_k binfo - n_block * int (kBlockN t);
          min_MN = seqlen_k_cache binfo - n_block * int (kBlockN t);
          v_mem' = store_g t (Is_even_K f) (params_d p) max_MN min_MN
                     (\<lambda>r c. vnew_mem mem (ap_tVgVnew a + int r * vnew_row_stride p + int c))
                     (ap_tVgV a) (v_row_stride p) (ap_v_mem a);
          tVgVnew = ap_tVgVnew a + (- (int (kBlockN t) * vnew_row_stride p));
          k_mem' =
            (if rotary_dim p = 0
             then store_g t (Is_even_K f) (params_d p) max_MN min_MN
                    (\<lambda>r c. knew_mem mem (ap_tKgKnew a + int r * knew_row_stride p + int c))
                    (ap_tKgK a) (k_row_stride p) (ap_k_mem a)
             else store_g t (Is_even_K f) (params_d p) max_MN min_MN
                    (\<lambda>r. rotary (is_rotary_interleaved p) (rotary_dim p)
                       (\<lambda>c. knew_mem mem (ap_tKgKnew a + int r * knew_row_stride p + int c))
                       (\<lambda>c. rotary_cos mem
                               (ap_tRgCos a + int r * (rotary_dim p sdiv 2) + int c))
                       (\<lambda>c. rotary_sin mem
                               (ap_tRgCos a + int r * (rotary_dim p sdiv 2) + int c)))
                    (ap_tKgK a) (k_row_stride p) (ap_k_mem a));
          tRgCos = (if rotary_dim p = 0 then ap_tRgCos a
                    else ap_tRgCos a + (- ((int (kBlockN t) * rotary_dim p) sdiv 2)));
          tKgKnew = ap_tKgKnew a + (- (int (kBlockN t) * knew_row_stride p));
          tVgV = (case btab of
                    None \<Rightarrow> ap_tVgV a + (- (int (kBlockN t) * v_row_stride p))
                  | Some bt \<Rightarrow>
                      if n_block > n_block_copy_min
                      then advance_paged bt t p (v_batch_stride p) (v_row_stride p) n_block
                             (ap_tVgV a)
                      else ap_tVgV a);
          tKgK = (case btab of
                    None \<Rightarrow> ap_tKgK a + (- (int (kBlockN t) * k_row_stride p))
                  | Some bt \<Rightarrow>
                      if n_block > n_block_copy_min
                      then advance_paged bt t p (k_batch_stride p) (k_row_stride p) n_block
                             (ap_tKgK a)
                      else ap_tKgK a)
      in \<lparr>ap_tKgK = tKgK, ap_tVgV = tVgV, ap_tKgKnew = tKgKnew, ap_tVgVnew = tVgVnew,
          ap_tRgCos = tRgCos, ap_k_mem = k_mem', ap_v_mem = v_mem'\<rparr>)"

function append_loop ::
    "(int \<Rightarrow> append_state \<Rightarrow> append_state) \<Rightarrow> int \<Rightarrow> int \<Rightarrow> append_state \<Rightarrow> append_state" where
  "append_loop body n_block_copy_min n_block a =
     (if n_block \<ge> n_block_copy_min
      then append_loop body n_block_copy_min (n_block - 1) (body n_block a)
      else a)"
  by pat_completeness auto
termination
  by (relation "measure (\<lambda>(body, n_block_copy_min, n_block, a).
                           nat (n_block - n_block_copy_min + 1))") auto

declare append_loop.simps [simp del]

text \<open>The append phase (lines 798 to 899): the caches after it. \<open>tKgK\<close> and \<open>tVgV\<close> are
  the offsets of the last K and V tile of the block.\<close>

definition append_kv ::
    "flags \<Rightarrow> traits \<Rightarrow> params \<Rightarrow> block_info \<Rightarrow> gmemory \<Rightarrow> (int \<Rightarrow> int) option \<Rightarrow> rotate_fn
       \<Rightarrow> int \<Rightarrow> int \<Rightarrow> int \<Rightarrow> int \<Rightarrow> int \<Rightarrow> int \<Rightarrow> gmem \<times> gmem" where
  "append_kv f t p binfo mem btab rotary bidb bidh n_block_min n_block_max tKgK tVgV =
     (let row_offset_cossin = ((n_block_max - 1) * int (kBlockN t)) * (rotary_dim p sdiv 2);
          n_block_copy_min = max n_block_min (seqlen_k_cache binfo sdiv int (kBlockN t));
          a = append_loop (append_body f t p binfo mem btab rotary n_block_copy_min)
                n_block_copy_min (n_block_max - 1)
                \<lparr>ap_tKgK = tKgK, ap_tVgV = tVgV,
                 ap_tKgKnew = row_offset_knew t p binfo bidb bidh n_block_max
                                - seqlen_k_cache binfo * knew_row_stride p,
                 ap_tVgVnew = row_offset_vnew t p binfo bidb bidh n_block_max
                                - seqlen_k_cache binfo * vnew_row_stride p,
                 ap_tRgCos = row_offset_cossin,
                 ap_k_mem = k_mem mem, ap_v_mem = v_mem mem\<rparr>
      in (ap_k_mem a, ap_v_mem a))"

subsubsection \<open>The query tile\<close>

text \<open>Reading Q with rotary embedding (lines 907 to 936): the row of cosines and sines of
  tile row \<open>r\<close> starts at \<open>row_offset_cossin + r * stride\<close>, with the stride \<open>0\<close> when the
  attention is neither causal nor local.\<close>

definition load_q_rotary ::
    "flags \<Rightarrow> traits \<Rightarrow> params \<Rightarrow> block_info \<Rightarrow> gmemory \<Rightarrow> rotate_fn \<Rightarrow> int \<Rightarrow> int \<Rightarrow> tile
       \<Rightarrow> tile" where
  "load_q_rotary f t p binfo mem rotary ptr m_block dst =
     (let row_offset_cossin =
            (seqlen_k_cache binfo
               + (if Is_causal f \<or> Is_local f then m_block * int (kBlockM t) else 0))
              * (rotary_dim p sdiv 2);
          stride = (if Is_causal f \<or> Is_local f then rotary_dim p sdiv 2 else 0)
      in (\<lambda>r c. if int r < actual_seqlen_q binfo - m_block * int (kBlockM t)
                 then (if Is_even_K f \<or> int c < params_d p
                       then Fin (rotary (is_rotary_interleaved p) (rotary_dim p)
                              (\<lambda>c. q_mem mem (ptr + int r * q_row_stride p + int c))
                              (\<lambda>c. rotary_cos mem (row_offset_cossin + int r * stride + int c))
                              (\<lambda>c. rotary_sin mem (row_offset_cossin + int r * stride + int c))
                              c)
                       else Fin 0)
                 else dst r c))"

subsubsection \<open>The kernel\<close>

text \<open>The ALiBi slope of the split kernel (line 954), which reads the slopes whenever
  \<open>Has_alibi\<close> is set.\<close>

definition alibi_slope_split :: "flags \<Rightarrow> params \<Rightarrow> (int \<Rightarrow> real) \<Rightarrow> int \<Rightarrow> int \<Rightarrow> real" where
  "alibi_slope_split f p slopes bidb bidh =
     (if \<not> Has_alibi f then 0
      else slopes (bidb * alibi_slopes_batch_stride p + bidh) / scale_softmax p)"

text \<open>The result of a block of the split kernel: what it stores through \<^verbatim>\<open>gOaccum\<close> and
  \<^verbatim>\<open>gLSEaccum\<close>, and the K and V caches after its append phase.\<close>

record splitkv_out = attn_out +
  out_k_mem :: gmem
  out_v_mem :: gmem

text \<open>\<open>slopes\<close> is the tensor behind \<^verbatim>\<open>alibi_slopes_ptr\<close>, which the kernel dereferences
  without a null test.\<close>

definition compute_attn_1rowblock_splitkv ::
    "flags \<Rightarrow> traits \<Rightarrow> params \<Rightarrow> block_info \<Rightarrow> gmemory \<Rightarrow> (int \<Rightarrow> real) \<Rightarrow> smem \<Rightarrow> rotate_fn
       \<Rightarrow> int \<Rightarrow> int \<Rightarrow> int \<Rightarrow> int \<Rightarrow> int \<Rightarrow> splitkv_out" where
  "compute_attn_1rowblock_splitkv f t p binfo mem slopes sm0 rotary bidb bidh m_block
       n_split_idx num_n_splits =
     (if m_block * int (kBlockM t) \<ge> actual_seqlen_q binfo
      then \<lparr>out_rng_state = None, out_O = (\<lambda>r c. None), out_LSE = (\<lambda>r. None),
            out_exit = Exit_beyond_seqlen_q, out_k_mem = k_mem mem, out_v_mem = v_mem mem\<rparr>
      else
        (let n_block_min = n_block_min_split f t p binfo m_block n_split_idx num_n_splits;
             n_block_max = n_block_max_split f t p binfo m_block n_split_idx num_n_splits;
             max_M = actual_seqlen_q binfo - m_block * int (kBlockM t)
         in if n_block_min \<ge> n_block_max
            then \<lparr>out_rng_state = None,
                  out_O = store_tile (Is_even_MN f) (Is_even_K f) t (params_d p) max_M
                            (\<lambda>r c. Fin 0),
                  out_LSE = store_rows t max_M (\<lambda>r. if Split f then MInf else PInf),
                  out_exit = Exit_empty_range, out_k_mem = k_mem mem, out_v_mem = v_mem mem\<rparr>
            else
              (let bidb_cache = (case cache_batch_idx mem of None \<Rightarrow> bidb | Some idx \<Rightarrow> idx bidb);
                   btab = block_table_row p mem bidb;
                   tKgK = row_offset_k_split t p binfo btab bidb_cache bidh n_block_max;
                   tVgV = row_offset_v_split t p binfo btab bidb_cache bidh n_block_max;
                   (k_mem', v_mem') =
                     (if Append_KV f
                      then append_kv f t p binfo mem btab rotary bidb bidh n_block_min
                             n_block_max tKgK tVgV
                      else (k_mem mem, v_mem mem));
                   memr = mem\<lparr>k_mem := k_mem', v_mem := v_mem', block_table := btab\<rparr>;
                   sQ = (if \<not> Append_KV f \<or> rotary_dim p = 0
                         then copy_g2s (Is_even_MN f) (Is_even_K f) False (params_d p) (q_mem mem)
                                (row_offset_q t p binfo bidb bidh m_block) (q_row_stride p) max_M
                                (smem_Q sm0)
                         else load_q_rotary f t p binfo mem rotary
                                (row_offset_q t p binfo bidb bidh m_block) m_block (smem_Q sm0));
                   n_block = n_block_max - 1;
                   sK = copy_g2s (Is_even_MN f) (Is_even_K f) False (params_d p) k_mem'
                          tKgK (k_row_stride p)
                          (actual_seqlen_k binfo - n_block * int (kBlockN t)) (smem_K sm0);
                   st = \<lparr>st_tKgK = tKgK, st_tVgV = tVgV,
                         st_sK = sK, st_sV = smem_V sm0, st_acc_o = (\<lambda>r c. Fin 0),
                         st_softmax = \<lparr>row_max = (\<lambda>r. MInf), row_sum = (\<lambda>r. Fin 0)\<rparr>\<rparr>;
                   mk = make_mask p binfo (alibi_slope_split f p slopes bidb bidh);
                   (n_block, st) =
                     masking_loop
                       (masking_body f t p binfo memr mk
                          (Is_causal f \<or> Is_local f \<or> \<not> Is_even_MN f) (\<lambda>n rP. rP)
                          sQ m_block n_block_min)
                       (n_masking_steps f t) n_block_min 0 n_block st;
                   (n_block, st) =
                     main_loop (main_body f t p memr mk (\<lambda>n rP. rP) sQ m_block n_block_min)
                       n_block_min n_block st;
                   (lse, acc_o) = normalize_softmax_lse False (Split f) (st_softmax st)
                                    (st_acc_o st) (scale_softmax p) 1
               in \<lparr>out_rng_state = None,
                   out_O = store_tile (Is_even_MN f) (Is_even_K f) t (params_d p) max_M acc_o,
                   out_LSE = store_rows t max_M lse,
                   out_exit = Exit_epilogue, out_k_mem = k_mem', out_v_mem = v_mem'\<rparr>)))"

subsection \<open>The reduction kernel \<^verbatim>\<open>combine_attn_seqk_parallel\<close>\<close>

text \<open>The template constants of the kernel; \<open>cb_kNThreads\<close> is \<open>128\<close> by a static
  assertion of the source.\<close>

record combine_traits =
  cb_kBlockM :: nat
  cb_Log_max_splits :: nat
  cb_kHeadDim :: nat
  cb_kNThreads :: nat

definition kMaxSplits :: "combine_traits \<Rightarrow> nat" where
  "kMaxSplits ct = 2 ^ cb_Log_max_splits ct"

definition kNLsePerThread :: "combine_traits \<Rightarrow> nat" where
  "kNLsePerThread ct = (kMaxSplits ct * cb_kBlockM ct + cb_kNThreads ct - 1) div cb_kNThreads ct"

definition kRowsPerLoadLSE :: "combine_traits \<Rightarrow> nat" where
  "kRowsPerLoadLSE ct = cb_kNThreads ct div cb_kBlockM ct"

definition kRowsPerLoadTranspose :: "combine_traits \<Rightarrow> nat" where
  "kRowsPerLoadTranspose ct = min (kRowsPerLoadLSE ct) (kMaxSplits ct)"

text \<open>The number of rows of the flattened output, \<open>b * h * seqlen_q\<close>.\<close>

definition total_rows :: "params \<Rightarrow> int" where
  "total_rows p = params_b p * params_h p * seqlen_q p"

text \<open>The first loop (lines 1272 to 1278): thread \<open>tidx\<close> stores, for every \<open>l\<close>, one
  partial log-sum-exp (or minus infinity beyond the splits and the rows) into the shared
  array \<open>sLSE\<close>.\<close>

definition load_sLSE ::
    "combine_traits \<Rightarrow> params \<Rightarrow> (int \<Rightarrow> fl) \<Rightarrow> int \<Rightarrow> (nat \<Rightarrow> nat \<Rightarrow> fl) \<Rightarrow> nat \<Rightarrow> nat \<Rightarrow> fl" where
  "load_sLSE ct p lseaccum bidx sLSE0 =
     fold (\<lambda>(tidx, l) sLSE.
             let row = l * kRowsPerLoadLSE ct + tidx div cb_kBlockM ct;
                 col = tidx mod cb_kBlockM ct;
                 lse = (if int row < num_splits p
                           \<and> int col < total_rows p - bidx * int (cb_kBlockM ct)
                        then lseaccum (bidx * int (cb_kBlockM ct) + int row * total_rows p
                                         + int col)
                        else MInf)
             in if row < kMaxSplits ct then sLSE(row := (sLSE row)(col := lse)) else sLSE)
       (List.product [0..<cb_kNThreads ct] [0..<kNLsePerThread ct]) sLSE0"

text \<open>The transposed read (lines 1291 to 1296) of thread \<open>tidx\<close>.\<close>

definition lse_accum :: "combine_traits \<Rightarrow> (nat \<Rightarrow> nat \<Rightarrow> fl) \<Rightarrow> nat \<Rightarrow> nat \<Rightarrow> fl" where
  "lse_accum ct sLSE tidx l =
     (let row = l * kRowsPerLoadTranspose ct + tidx mod kRowsPerLoadTranspose ct;
          col = tidx div kRowsPerLoadTranspose ct
      in if row < kMaxSplits ct \<and> col < cb_kBlockM ct then sLSE row col else MInf)"

text \<open>Modelled from the spec: \<^verbatim>\<open>Allreduce\<close> is defined in \<^verbatim>\<open>utils.h\<close>, which is not part
  of the source file. It leaves in every lane the reduction of the values of the lanes of
  its aligned group of \<open>n\<close> threads.\<close>

definition allreduce_max :: "nat \<Rightarrow> (nat \<Rightarrow> fl) \<Rightarrow> nat \<Rightarrow> fl" where
  "allreduce_max n x tidx =
     fl_maxs (x (tidx div n * n)) (n - 1) (\<lambda>j. x (tidx div n * n + j + 1))"

definition allreduce_sum :: "nat \<Rightarrow> (nat \<Rightarrow> fl) \<Rightarrow> nat \<Rightarrow> fl" where
  "allreduce_sum n x tidx =
     fl_sums (x (tidx div n * n)) (n - 1) (\<lambda>j. x (tidx div n * n + j + 1))"

text \<open>The log-sum-exp over the splits (lines 1299 to 1312), as thread \<open>tidx\<close> holds it.\<close>

definition lse_max_of :: "combine_traits \<Rightarrow> (nat \<Rightarrow> nat \<Rightarrow> fl) \<Rightarrow> nat \<Rightarrow> fl" where
  "lse_max_of ct sLSE tidx =
     (let lse_max = allreduce_max (kRowsPerLoadTranspose ct)
                      (\<lambda>tid. fl_maxs (lse_accum ct sLSE tid 0) (kNLsePerThread ct - 1)
                                (\<lambda>l. lse_accum ct sLSE tid (l + 1))) tidx
      in if fl_eq lse_max MInf then Fin 0 else lse_max)"

definition lse_sum_of :: "combine_traits \<Rightarrow> (nat \<Rightarrow> nat \<Rightarrow> fl) \<Rightarrow> nat \<Rightarrow> fl" where
  "lse_sum_of ct sLSE tidx =
     allreduce_sum (kRowsPerLoadTranspose ct)
       (\<lambda>tid. fl_sums (fl_exp (fl_sub (lse_accum ct sLSE tid 0) (lse_max_of ct sLSE tid)))
                 (kNLsePerThread ct - 1)
                 (\<lambda>l. fl_exp (fl_sub (lse_accum ct sLSE tid (l + 1)) (lse_max_of ct sLSE tid))))
       tidx"

definition lse_logsum_of :: "combine_traits \<Rightarrow> (nat \<Rightarrow> nat \<Rightarrow> fl) \<Rightarrow> nat \<Rightarrow> fl" where
  "lse_logsum_of ct sLSE tidx =
     (let lse_sum = lse_sum_of ct sLSE tidx
      in if fl_eq lse_sum (Fin 0) \<or> \<not> fl_eq lse_sum lse_sum then PInf
         else fl_add (fl_log lse_sum) (lse_max_of ct sLSE tidx))"

text \<open>The loop that replaces the partial log-sum-exps in \<open>sLSE\<close> by the scales
  \<open>exp (lse - lse_logsum)\<close> (lines 1317 to 1321).\<close>

definition store_scales ::
    "combine_traits \<Rightarrow> params \<Rightarrow> (nat \<Rightarrow> nat \<Rightarrow> fl) \<Rightarrow> nat \<Rightarrow> nat \<Rightarrow> fl" where
  "store_scales ct p sLSE =
     fold (\<lambda>(tidx, l) s.
             let row = l * kRowsPerLoadTranspose ct + tidx mod kRowsPerLoadTranspose ct;
                 col = tidx div kRowsPerLoadTranspose ct
             in if int row < num_splits p \<and> col < cb_kBlockM ct
                then s(row := (s row)(col := fl_exp (fl_sub (lse_accum ct sLSE tidx l)
                                                       (lse_logsum_of ct sLSE tidx))))
                else s)
       (List.product [0..<cb_kNThreads ct] [0..<kNLsePerThread ct]) sLSE"

text \<open>The loop over the splits (lines 1351 to 1369): the partial output of a split is read
  under the row and column predicates (a row beyond the output keeps the stale register
  content \<open>stale\<close>, a column beyond \<open>d\<close> is cleared), scaled and accumulated from zero; the
  pointer moves on by \<open>b * h * seqlen_q * d_rounded\<close>.\<close>

definition accumulate_O ::
    "combine_traits \<Rightarrow> bool \<Rightarrow> params \<Rightarrow> (int \<Rightarrow> fl) \<Rightarrow> int \<Rightarrow> (nat \<Rightarrow> nat \<Rightarrow> fl) \<Rightarrow> tile
       \<Rightarrow> nat \<Rightarrow> nat \<Rightarrow> fl" where
  "accumulate_O ct even_K p oaccum bidx scales stale =
     (\<lambda>r c. fl_sums (Fin 0) (nat (num_splits p))
        (\<lambda>split.
           fl_mul (scales split r)
             (if int r < total_rows p - bidx * int (cb_kBlockM ct)
              then (if even_K \<or> int c < params_d p
                    then oaccum (bidx * int (cb_kBlockM ct) * d_rounded p
                                   + int split * (total_rows p * d_rounded p)
                                   + int r * int (cb_kHeadDim ct) + int c)
                    else Fin 0)
              else stale r c)))"

text \<open>What a block of the reduction kernel stores: the final log-sum-exp of the rows of
  its tile (line 1314) and the rows of \<open>O\<close> (lines 1375 to 1397), with the offset of
  every row from \<^verbatim>\<open>o_ptr\<close>.\<close>

record combine_out =
  cb_LSE :: "nat \<Rightarrow> fl option"
  cb_O :: "nat \<Rightarrow> nat \<Rightarrow> fl option"
  cb_O_offset :: "nat \<Rightarrow> int"

definition combine_attn_seqk_parallel ::
    "combine_traits \<Rightarrow> bool \<Rightarrow> params \<Rightarrow> (int \<Rightarrow> fl) \<Rightarrow> (int \<Rightarrow> fl) \<Rightarrow> (nat \<Rightarrow> nat \<Rightarrow> fl) \<Rightarrow> tile
       \<Rightarrow> int \<Rightarrow> combine_out" where
  "combine_attn_seqk_parallel ct even_K p lseaccum oaccum sLSE0 stale bidx =
     (let sLSE = load_sLSE ct p lseaccum bidx sLSE0;
          scales = store_scales ct p sLSE;
          tOrO = accumulate_O ct even_K p oaccum bidx scales stale
      in \<lparr>cb_LSE = (\<lambda>r. if r < cb_kBlockM ct
                          \<and> r * kRowsPerLoadTranspose ct < cb_kNThreads ct
                        then Some (lse_logsum_of ct sLSE (r * kRowsPerLoadTranspose ct))
                        else None),
          cb_O = (\<lambda>r c. if r < cb_kBlockM ct \<and> c < cb_kHeadDim ct
                            \<and> bidx * int (cb_kBlockM ct) + int r < total_rows p
                            \<and> (even_K \<or> int c < params_d p)
                         then Some (tOrO r c) else None),
          cb_O_offset = (\<lambda>r.
            let idx = bidx * int (cb_kBlockM ct) + int r;
                batch_idx = idx sdiv (params_h p * seqlen_q p);
                head_idx = (idx - batch_idx * (params_h p * seqlen_q p)) sdiv seqlen_q p;
                row = idx - batch_idx * (params_h p * seqlen_q p) - head_idx * seqlen_q p
            in batch_idx * o_batch_stride p + head_idx * o_head_stride p
                 + row * o_row_stride p)\<rparr>)"

text \<open>The partial results of split \<open>s\<close> for row \<open>r\<close> (and column \<open>c\<close>) of the tile of block
  \<open>bidx\<close>, as the reduction kernel addresses them in \<^verbatim>\<open>softmax_lseaccum_ptr\<close> and
  \<^verbatim>\<open>oaccum_ptr\<close>.\<close>

definition lse_split :: "combine_traits \<Rightarrow> params \<Rightarrow> (int \<Rightarrow> fl) \<Rightarrow> int \<Rightarrow> nat \<Rightarrow> nat \<Rightarrow> fl" where
  "lse_split ct p lseaccum bidx r s =
     lseaccum (bidx * int (cb_kBlockM ct) + int s * total_rows p + int r)"

definition o_split ::
    "combine_traits \<Rightarrow> params \<Rightarrow> (int \<Rightarrow> fl) \<Rightarrow> int \<Rightarrow> nat \<Rightarrow> nat \<Rightarrow> nat \<Rightarrow> fl" where
  "o_split ct p oaccum bidx r c s =
     oaccum (bidx * int (cb_kBlockM ct) * d_rounded p + int s * (total_rows p * d_rounded p)
               + int r * int (cb_kHeadDim ct) + int c)"

text \<open>\<open>exp (x - y)\<close> for a log-sum-exp \<open>x\<close> that is a real number or minus infinity, and
  the order of such values against a real number.\<close>

definition exp_diff :: "fl \<Rightarrow> real \<Rightarrow> real" where
  "exp_diff x y = (case x of Fin a \<Rightarrow> exp (a - y) | _ \<Rightarrow> 0)"

definition score_le :: "fl \<Rightarrow> real \<Rightarrow> bool" where
  "score_le x M = (case x of Fin a \<Rightarrow> a \<le> M | MInf \<Rightarrow> True | _ \<Rightarrow> False)"

subsection \<open>Example inputs\<close>

text \<open>Concrete inputs on which the theorems below are instantiated: tiles of 64 by 64,
  head dimension 64, one batch element with 8 query heads over 2 key/value heads, 200
  queries against 10 keys.\<close>

definition ex_traits :: traits where
  "ex_traits = \<lparr>kBlockM = 64, kBlockN = 64, kHeadDim = 64, kNWarps = 4\<rparr>"

definition ex_flags :: flags where
  "ex_flags = \<lparr>Is_dropout = True, Is_causal = False, Is_local = True, Has_alibi = False,
     Is_even_MN = False, Is_even_K = True, Return_softmax = False, Split = True,
     Append_KV = False\<rparr>"

definition ex_params :: params where
  "ex_params = \<lparr>params_b = 1, params_h = 8, params_d = 64, d_rounded = 64,
     seqlen_q = 200, seqlen_k = 10, seqlen_knew = 0, h_h_k_ratio = 4,
     window_size_left = 0, window_size_right = 0,
     scale_softmax = 1 / 8, scale_softmax_log2 = 1 / (8 * ln 2), rp_dropout = 1,
     q_batch_stride = 102400, q_row_stride = 512, q_head_stride = 64,
     k_batch_stride = 1280, k_row_stride = 128, k_head_stride = 64,
     v_batch_stride = 1280, v_row_stride = 128, v_head_stride = 64,
     o_batch_stride = 102400, o_row_stride = 512, o_head_stride = 64,
     knew_batch_stride = 0, knew_row_stride = 128, knew_head_stride = 64,
     vnew_batch_stride = 0, vnew_row_stride = 128, vnew_head_stride = 64,
     alibi_slopes_batch_stride = 0, block_table_batch_stride = 1,
     page_block_size = 256, rotary_dim = 0, is_rotary_interleaved = False,
     num_splits = 2\<rparr>"

definition ex_binfo :: block_info where
  "ex_binfo = \<lparr>actual_seqlen_q = 200, actual_seqlen_k = 10, seqlen_k_cache = 10,
     q_offset = (\<lambda>batch_stride row_stride bidb. bidb * batch_stride),
     k_offset = (\<lambda>batch_stride row_stride bidb. bidb * batch_stride)\<rparr>"

definition ex_mem :: gmemory where
  "ex_mem = \<lparr>q_mem = (\<lambda>a. 0), k_mem = (\<lambda>a. 0), v_mem = (\<lambda>a. 0), knew_mem = (\<lambda>a. 1),
     vnew_mem = (\<lambda>a. 1), rotary_cos = (\<lambda>a. 1), rotary_sin = (\<lambda>a. 0),
     alibi_slopes = None, block_table = None, cache_batch_idx = None\<rparr>"

definition ex_smem :: smem where
  "ex_smem = \<lparr>smem_Q = (\<lambda>r c. NaN), smem_K = (\<lambda>r c. NaN), smem_V = (\<lambda>r c. NaN)\<rparr>"

text \<open>Flags of a causal kernel without dropout, for the same inputs.\<close>

definition ex_flags_causal :: flags where
  "ex_flags_causal = \<lparr>Is_dropout = False, Is_causal = True, Is_local = False,
     Has_alibi = False, Is_even_MN = False, Is_even_K = True, Return_softmax = False,
     Split = False, Append_KV = False\<rparr>"

text \<open>Template constants of the reduction kernel for tiles of 4 rows and at most 2 splits.\<close>

definition ex_combine_traits :: combine_traits where
  "ex_combine_traits = \<lparr>cb_kBlockM = 4, cb_Log_max_splits = 1, cb_kHeadDim = 64,
     cb_kNThreads = 128\<rparr>"


definition ex_params_paged :: params where
  "ex_params_paged = ex_params\<lparr>seqlen_k := 48, k_batch_stride := 2048,
     v_batch_stride := 2048, page_block_size := 16\<rparr>"

definition ex_binfo_paged :: block_info where
  "ex_binfo_paged = ex_binfo\<lparr>actual_seqlen_k := 48, seqlen_k_cache := 48\<rparr>"

definition ex_table :: "int \<Rightarrow> int" where
  "ex_table j = 2 - j"

definition ex_mem_paged :: gmemory where
  "ex_mem_paged = ex_mem\<lparr>v_mem := (\<lambda>a. if a < 6144 then 1 else 0),
     block_table := Some ex_table\<rparr>"

definition ex_mem_unpaged :: gmemory where
  "ex_mem_unpaged = ex_mem\<lparr>v_mem := (\<lambda>a. 1)\<rparr>"


















subsection \<open>Reference attention\<close>

text \<open>
  The quantities in which the results of the kernels are stated. A logit is a real number
  or minus infinity (a masked key). \<open>wt sl2 M x\<close> is the weight \<open>2 ^ (x * sl2 - M * sl2)\<close>
  of a logit \<open>x\<close> relative to \<open>M\<close>, and \<open>0\<close> for a masked key. \<open>row_inv\<close> says that the
  running maximum \<open>m\<close>, the denominator \<open>l\<close> and the accumulator row \<open>acc\<close> of a query row
  are those of the online softmax over the keys \<open>J\<close> with logits \<open>sc\<close> and values \<open>v\<close>.
\<close>

definition fin_of :: "fl \<Rightarrow> real" where
  "fin_of x = (case x of Fin r \<Rightarrow> r | _ \<Rightarrow> 0)"

definition is_score :: "fl \<Rightarrow> bool" where
  "is_score x = (case x of Fin r \<Rightarrow> True | MInf \<Rightarrow> True | _ \<Rightarrow> False)"

definition wt :: "real \<Rightarrow> real \<Rightarrow> fl \<Rightarrow> real" where
  "wt sl2 M x = (case x of Fin r \<Rightarrow> 2 powr (r * sl2 - M * sl2) | _ \<Rightarrow> 0)"

definition row_inv ::
    "real \<Rightarrow> (int \<Rightarrow> fl) \<Rightarrow> (int \<Rightarrow> nat \<Rightarrow> real) \<Rightarrow> int set \<Rightarrow> fl \<Rightarrow> fl \<Rightarrow> (nat \<Rightarrow> fl) \<Rightarrow> bool" where
  "row_inv sl2 sc v J m l acc =
     (is_score m \<and> (m = MInf \<longleftrightarrow> (\<forall>j\<in>J. sc j = MInf))
      \<and> l = Fin (\<Sum>j\<in>J. wt sl2 (fin_of m) (sc j))
      \<and> (\<forall>c. acc c = Fin (\<Sum>j\<in>J. wt sl2 (fin_of m) (sc j) * v j c)))"

text \<open>The closed form of the pointer of K/V tile \<open>n\<close>: \<open>base\<close> plus \<open>n\<close> tiles of rows
  without a block table, and the start of the tile in its page with one.\<close>

definition tile_ptr ::
    "(int \<Rightarrow> int) option \<Rightarrow> traits \<Rightarrow> params \<Rightarrow> int \<Rightarrow> int \<Rightarrow> int \<Rightarrow> int \<Rightarrow> int" where
  "tile_ptr btab t p batch_stride row_stride base n =
     (case btab of
        None \<Rightarrow> base + n * int (kBlockN t) * row_stride
      | Some bt \<Rightarrow>
          bt ((n * int (kBlockN t)) sdiv page_block_size p) * batch_stride
            + (n * int (kBlockN t)
                 - ((n * int (kBlockN t)) sdiv page_block_size p) * page_block_size p) * row_stride
            + base)"

text \<open>The element that a kernel reads for key position \<open>pos\<close> and column \<open>c\<close>: row
  \<open>pos mod kBlockN\<close> of the tile \<open>pos div kBlockN\<close>, under the column predicate.\<close>

definition kv_at ::
    "flags \<Rightarrow> traits \<Rightarrow> params \<Rightarrow> gmem \<Rightarrow> (int \<Rightarrow> int) option \<Rightarrow> int \<Rightarrow> int \<Rightarrow> int \<Rightarrow> int \<Rightarrow> nat
       \<Rightarrow> real" where
  "kv_at f t p mem btab batch_stride row_stride base pos c =
     (if Is_even_K f \<or> int c < params_d p
      then mem (tile_ptr btab t p batch_stride row_stride base (pos div int (kBlockN t))
                  + (pos mod int (kBlockN t)) * row_stride + int c)
      else 0)"

text \<open>The logit of query row \<open>row\<close> (with elements \<open>qr\<close>) against key \<open>pos\<close> (with elements
  \<open>kk pos\<close>), before the softmax scale: the dot product plus the ALiBi bias, or minus
  infinity for a key that the causal mask, the window or the key length excludes.\<close>

definition logit ::
    "flags \<Rightarrow> traits \<Rightarrow> mask \<Rightarrow> (nat \<Rightarrow> real) \<Rightarrow> (int \<Rightarrow> nat \<Rightarrow> real) \<Rightarrow> int \<Rightarrow> int \<Rightarrow> fl" where
  "logit f t mk qr kk row pos =
     (if masked_out (Is_causal f) (Is_local f) False mk row pos then MInf
      else Fin ((\<Sum>c<kHeadDim t. qr c * kk pos c)
                + (if Has_alibi f then alibi_bias mk row pos else 0)))"

text \<open>The state of the K/V loop of a block, for row \<open>i\<close> of its query tile, when the tiles
  above \<open>n\<close> have been processed: the pointers are at their closed forms, the K tile in
  shared memory is tile \<open>n\<close>, and the softmax state and the accumulator row are those of
  the keys of the tiles above \<open>n\<close>. \<open>first\<close> says that no tile has been processed yet.\<close>

definition loop_inv ::
    "traits \<Rightarrow> real \<Rightarrow> int \<Rightarrow> (int \<Rightarrow> int) \<Rightarrow> (int \<Rightarrow> int) \<Rightarrow> (int \<Rightarrow> nat \<Rightarrow> real) \<Rightarrow> (int \<Rightarrow> fl)
       \<Rightarrow> (int \<Rightarrow> nat \<Rightarrow> real) \<Rightarrow> int \<Rightarrow> int \<Rightarrow> nat \<Rightarrow> bool \<Rightarrow> int \<Rightarrow> attn_state \<Rightarrow> bool" where
  "loop_inv t sl2 sk KP VP kk sc v n_block_min n_block_max i first n st =
     (st_tKgK st = KP (max n n_block_min)
      \<and> st_tVgV st = VP (if first then n else n + 1)
      \<and> (n_block_min \<le> n \<longrightarrow>
           (\<forall>r<kBlockN t. \<forall>c. n * int (kBlockN t) + int r < sk \<longrightarrow>
              st_sK st r c = Fin (kk (n * int (kBlockN t) + int r) c)))
      \<and> row_inv sl2 sc v {(n + 1) * int (kBlockN t)..<n_block_max * int (kBlockN t)}
           (row_max (st_softmax st) i) (row_sum (st_softmax st) i) (st_acc_o st i))"

text \<open>The weight \<open>exp (scale * x)\<close> of a logit \<open>x\<close> in the softmax, \<open>0\<close> for a masked key.\<close>

definition exp_weight :: "real \<Rightarrow> fl \<Rightarrow> real" where
  "exp_weight scale x = (case x of Fin r \<Rightarrow> exp (scale * r) | _ \<Rightarrow> 0)"

text \<open>
  The reference of the spec: the weight of key \<open>pos\<close> for query row \<open>row\<close> is
  \<open>exp (scale * (q . k) + alibi)\<close> with the ALiBi term \<open>slope * (pos - (row + Sk - Sq))\<close>,
  and \<open>0\<close> for a key that the masks exclude; over a set \<open>J\<close> of keys the output is the
  weighted mean of the value rows and the log-sum-exp is the logarithm of the sum of the
  weights. \<open>nd\<close> is the head dimension.
\<close>

definition ref_weight ::
    "flags \<Rightarrow> mask \<Rightarrow> real \<Rightarrow> real \<Rightarrow> nat \<Rightarrow> (nat \<Rightarrow> real) \<Rightarrow> (int \<Rightarrow> nat \<Rightarrow> real) \<Rightarrow> int \<Rightarrow> int
       \<Rightarrow> real" where
  "ref_weight f mk scale slope nd qr kk row pos =
     (if masked_out (Is_causal f) (Is_local f) False mk row pos then 0
      else exp (scale * (\<Sum>c<nd. qr c * kk pos c)
                + slope * real_of_int (pos - (row + max_seqlen_k mk - max_seqlen_q mk))))"

definition ref_O :: "(int \<Rightarrow> real) \<Rightarrow> (int \<Rightarrow> nat \<Rightarrow> real) \<Rightarrow> int set \<Rightarrow> nat \<Rightarrow> real" where
  "ref_O w vv J c = (\<Sum>pos\<in>J. w pos * vv pos c) / (\<Sum>pos\<in>J. w pos)"

definition ref_LSE :: "(int \<Rightarrow> real) \<Rightarrow> int set \<Rightarrow> real" where
  "ref_LSE w J = ln (\<Sum>pos\<in>J. w pos)"

text \<open>The tensors of a block as the spec indexes them: row \<open>i\<close> of the query tile, and
  the rows of K and V of the key/value head of the block by key position (the offset of
  the first K/V tile is \<open>row_offset_k\<close> with \<open>n_block_max = 1\<close>). \<open>alibi_slope_of\<close> is the
  ALiBi slope of the head, \<open>0\<close> without ALiBi.\<close>

definition q_row_of ::
    "traits \<Rightarrow> params \<Rightarrow> block_info \<Rightarrow> gmemory \<Rightarrow> int \<Rightarrow> int \<Rightarrow> int \<Rightarrow> nat \<Rightarrow> nat \<Rightarrow> real" where
  "q_row_of t p binfo mem bidb bidh m_block i =
     (\<lambda>c. q_mem mem (row_offset_q t p binfo bidb bidh m_block + int i * q_row_stride p + int c))"

definition k_at ::
    "traits \<Rightarrow> params \<Rightarrow> block_info \<Rightarrow> gmemory \<Rightarrow> int \<Rightarrow> int \<Rightarrow> int \<Rightarrow> nat \<Rightarrow> real" where
  "k_at t p binfo mem bidb bidh =
     (\<lambda>pos c. k_mem mem (row_offset_k t p binfo bidb bidh 1 + pos * k_row_stride p + int c))"

definition v_at ::
    "traits \<Rightarrow> params \<Rightarrow> block_info \<Rightarrow> gmemory \<Rightarrow> int \<Rightarrow> int \<Rightarrow> int \<Rightarrow> nat \<Rightarrow> real" where
  "v_at t p binfo mem bidb bidh =
     (\<lambda>pos c. v_mem mem (row_offset_v t p binfo bidb bidh 1 + pos * v_row_stride p + int c))"

definition alibi_slope_of :: "flags \<Rightarrow> params \<Rightarrow> gmemory \<Rightarrow> int \<Rightarrow> int \<Rightarrow> real" where
  "alibi_slope_of f p mem bidb bidh =
     (case alibi_slopes mem of
        None \<Rightarrow> 0
      | Some slopes \<Rightarrow>
          if Has_alibi f then slopes (bidb * alibi_slopes_batch_stride p + bidh) else 0)"

text \<open>The reference weights of the dense kernel for row \<open>i\<close> of query tile \<open>m_block\<close>.\<close>

definition dense_weight ::
    "flags \<Rightarrow> traits \<Rightarrow> params \<Rightarrow> block_info \<Rightarrow> gmemory \<Rightarrow> int \<Rightarrow> int \<Rightarrow> int \<Rightarrow> nat \<Rightarrow> int
       \<Rightarrow> real" where
  "dense_weight f t p binfo mem bidb bidh m_block i =
     ref_weight f (make_mask p binfo 0) (scale_softmax p) (alibi_slope_of f p mem bidb bidh)
       (nat (params_d p)) (q_row_of t p binfo mem bidb bidh m_block i)
       (k_at t p binfo mem bidb bidh) (m_block * int (kBlockM t) + int i)"

text \<open>What a block of the split kernel reads: the batch element of the cache, the base of
  the K and V tiles (the offset of the first tile without a block table, the head offset
  with one), the zero-filled row \<open>i\<close> of the query tile, the two caches after the append
  phase of the block, the row \<open>i\<close> of the query tile as the block loads it (rotated in
  append mode with \<open>rotary_dim\<close> not \<open>0\<close>), the logit of the row against key \<open>pos\<close>, the
  element of V for key \<open>pos\<close>, and the keys of the tile range of the split.\<close>

definition bidb_cache_of :: "gmemory \<Rightarrow> int \<Rightarrow> int" where
  "bidb_cache_of mem bidb = (case cache_batch_idx mem of None \<Rightarrow> bidb | Some idx \<Rightarrow> idx bidb)"

definition kv_base ::
    "params \<Rightarrow> block_info \<Rightarrow> gmemory \<Rightarrow> int \<Rightarrow> int \<Rightarrow> int \<Rightarrow> int \<Rightarrow> int \<Rightarrow> int" where
  "kv_base p binfo mem batch_stride row_stride head_stride bidb bidh =
     (case block_table mem of
        None \<Rightarrow> k_offset binfo batch_stride row_stride (bidb_cache_of mem bidb)
                 + (bidh sdiv h_h_k_ratio p) * head_stride
      | Some tbl \<Rightarrow> (bidh sdiv h_h_k_ratio p) * head_stride)"

definition q_row_filled ::
    "flags \<Rightarrow> traits \<Rightarrow> params \<Rightarrow> block_info \<Rightarrow> gmemory \<Rightarrow> int \<Rightarrow> int \<Rightarrow> int \<Rightarrow> nat \<Rightarrow> nat
       \<Rightarrow> real" where
  "q_row_filled f t p binfo mem bidb bidh m_block i =
     (\<lambda>c. if Is_even_K f \<or> int c < params_d p
          then q_row_of t p binfo mem bidb bidh m_block i c else 0)"

definition split_caches ::
    "flags \<Rightarrow> traits \<Rightarrow> params \<Rightarrow> block_info \<Rightarrow> gmemory \<Rightarrow> rotate_fn \<Rightarrow> int \<Rightarrow> int \<Rightarrow> int
       \<Rightarrow> int \<Rightarrow> int \<Rightarrow> gmem \<times> gmem" where
  "split_caches f t p binfo mem rotary bidb bidh m_block n_split_idx num_n_splits =
     (if Append_KV f
      then append_kv f t p binfo mem (block_table_row p mem bidb) rotary bidb bidh
             (n_block_min_split f t p binfo m_block n_split_idx num_n_splits)
             (n_block_max_split f t p binfo m_block n_split_idx num_n_splits)
             (row_offset_k_split t p binfo (block_table_row p mem bidb) (bidb_cache_of mem bidb)
                bidh (n_block_max_split f t p binfo m_block n_split_idx num_n_splits))
             (row_offset_v_split t p binfo (block_table_row p mem bidb) (bidb_cache_of mem bidb)
                bidh (n_block_max_split f t p binfo m_block n_split_idx num_n_splits))
      else (k_mem mem, v_mem mem))"

definition split_q_row ::
    "flags \<Rightarrow> traits \<Rightarrow> params \<Rightarrow> block_info \<Rightarrow> gmemory \<Rightarrow> rotate_fn \<Rightarrow> int \<Rightarrow> int \<Rightarrow> int
       \<Rightarrow> nat \<Rightarrow> nat \<Rightarrow> real" where
  "split_q_row f t p binfo mem rotary bidb bidh m_block i =
     (if \<not> Append_KV f \<or> rotary_dim p = 0
      then q_row_filled f t p binfo mem bidb bidh m_block i
      else (\<lambda>c. case load_q_rotary f t p binfo mem rotary
                       (row_offset_q t p binfo bidb bidh m_block) m_block (\<lambda>r c. Fin 0) i c of
                  Fin x \<Rightarrow> x | _ \<Rightarrow> 0))"

definition split_k ::
    "flags \<Rightarrow> traits \<Rightarrow> params \<Rightarrow> block_info \<Rightarrow> gmemory \<Rightarrow> rotate_fn \<Rightarrow> int \<Rightarrow> int \<Rightarrow> int
       \<Rightarrow> int \<Rightarrow> int \<Rightarrow> int \<Rightarrow> nat \<Rightarrow> real" where
  "split_k f t p binfo mem rotary bidb bidh m_block n_split_idx num_n_splits =
     kv_at f t p
       (fst (split_caches f t p binfo mem rotary bidb bidh m_block n_split_idx num_n_splits))
       (block_table_row p mem bidb) (k_batch_stride p) (k_row_stride p)
       (kv_base p binfo mem (k_batch_stride p) (k_row_stride p) (k_head_stride p) bidb bidh)"

definition split_v ::
    "flags \<Rightarrow> traits \<Rightarrow> params \<Rightarrow> block_info \<Rightarrow> gmemory \<Rightarrow> rotate_fn \<Rightarrow> int \<Rightarrow> int \<Rightarrow> int
       \<Rightarrow> int \<Rightarrow> int \<Rightarrow> int \<Rightarrow> nat \<Rightarrow> real" where
  "split_v f t p binfo mem rotary bidb bidh m_block n_split_idx num_n_splits =
     kv_at f t p
       (snd (split_caches f t p binfo mem rotary bidb bidh m_block n_split_idx num_n_splits))
       (block_table_row p mem bidb) (v_batch_stride p) (v_row_stride p)
       (kv_base p binfo mem (v_batch_stride p) (v_row_stride p) (v_head_stride p) bidb bidh)"

definition split_logit ::
    "flags \<Rightarrow> traits \<Rightarrow> params \<Rightarrow> block_info \<Rightarrow> gmemory \<Rightarrow> (int \<Rightarrow> real) \<Rightarrow> rotate_fn \<Rightarrow> int
       \<Rightarrow> int \<Rightarrow> int \<Rightarrow> int \<Rightarrow> int \<Rightarrow> nat \<Rightarrow> int \<Rightarrow> fl" where
  "split_logit f t p binfo mem slopes rotary bidb bidh m_block n_split_idx num_n_splits i =
     logit f t (make_mask p binfo (alibi_slope_split f p slopes bidb bidh))
       (split_q_row f t p binfo mem rotary bidb bidh m_block i)
       (split_k f t p binfo mem rotary bidb bidh m_block n_split_idx num_n_splits)
       (m_block * int (kBlockM t) + int i)"

definition split_keys ::
    "flags \<Rightarrow> traits \<Rightarrow> params \<Rightarrow> block_info \<Rightarrow> int \<Rightarrow> int \<Rightarrow> int \<Rightarrow> int set" where
  "split_keys f t p binfo m_block n_split_idx num_n_splits =
     {n_block_min_split f t p binfo m_block n_split_idx num_n_splits * int (kBlockN t)
      ..<n_block_max_split f t p binfo m_block n_split_idx num_n_splits * int (kBlockN t)}"

text \<open>The pointer of key row \<open>row\<close> in the paged layout as the spec gives it: the page
  \<open>block_table[row / page_size]\<close> times the batch stride plus \<open>row mod page_size\<close> rows,
  from \<open>base\<close>.\<close>

definition paged_ptr :: "params \<Rightarrow> (int \<Rightarrow> int) \<Rightarrow> int \<Rightarrow> int \<Rightarrow> int \<Rightarrow> int \<Rightarrow> int" where
  "paged_ptr p bt batch_stride row_stride base row =
     bt (row div page_block_size p) * batch_stride + (row mod page_block_size p) * row_stride
       + base"



definition n_block_copy_min :: "traits \<Rightarrow> block_info \<Rightarrow> int \<Rightarrow> int" where
  "n_block_copy_min t binfo n_block_min =
     max n_block_min (seqlen_k_cache binfo sdiv int (kBlockN t))"



section \<open>Properties\<close>

subsection \<open>The tile range\<close>

lemma sdiv_nonneg_div:
  assumes "0 \<le> (a::int)" and "0 < c"
  shows "a sdiv c = a div c"
  using assms by (simp add: signed_divide_int_def sgn_if)

lemma sdiv_neg_div:
  assumes "(a::int) < 0" and "0 < c"
  shows "a sdiv c = - ((- a) div c)"
  using assms by (simp add: signed_divide_int_def sgn_if)

text \<open>Where \<open>a + b - 1\<close> is not negative, \<open>ceil_div a b\<close> is the ceiling of \<open>a / b\<close>.\<close>

lemma ceil_div_nonneg:
  assumes "0 < b" and "- b < a"
  shows "ceil_div a b = - ((- a) div b)"
proof -
  let ?q = "(- a) div b" and ?r = "(- a) mod b"
  from assms have "0 \<le> a + b - 1" by simp
  then have "ceil_div a b = (a + b - 1) div b"
    unfolding ceil_div_def using assms(1) by (rule sdiv_nonneg_div)
  also have "a + b - 1 = (b - 1 - ?r) + (- ?q) * b"
  proof -
    have "- a = ?q * b + ?r" by simp
    then show ?thesis by (simp add: algebra_simps)
  qed
  also have "((b - 1 - ?r) + (- ?q) * b) div b = - ?q + (b - 1 - ?r) div b"
    using assms(1) by (subst div_mult_self1) simp_all
  also have "(b - 1 - ?r) div b = 0"
  proof (rule div_pos_pos_trivial)
    show "0 \<le> b - 1 - ?r" using pos_mod_bound [OF assms(1), of "- a"] by simp
    show "b - 1 - ?r < b" using pos_mod_sign [OF assms(1), of "- a"] by simp
  qed
  finally show ?thesis by simp
qed


lemma ceil_div_nonpos:
  assumes "0 < b" and "a \<le> 0"
  shows "ceil_div a b \<le> 0"
proof (cases "0 \<le> a + b - 1")
  case True
  with assms have "(a + b - 1) div b = 0" by (intro div_pos_pos_trivial) simp_all
  with True assms(1) show ?thesis by (simp add: ceil_div_def sdiv_nonneg_div)
next
  case False
  then have n: "a + b - 1 < 0" by simp
  then have "0 \<le> (- (a + b - 1)) div b"
    using assms(1) by (simp add: pos_imp_zdiv_nonneg_iff)
  then show ?thesis
    unfolding ceil_div_def sdiv_neg_div [OF n assms(1)] by simp
qed


lemma max0_sdiv_floor:
  assumes "0 < (b::int)"
  shows "max 0 (a sdiv b) = max 0 \<lfloor>real_of_int a / real_of_int b\<rfloor>"
proof (cases "0 \<le> a")
  case True
  with assms have "a sdiv b = a div b"
    by (simp add: signed_divide_int_def sgn_if)
  then show ?thesis
    by (simp add: floor_divide_of_int_eq)
next
  case False
  with assms have "a sdiv b \<le> 0"
    by (simp add: signed_divide_int_def sgn_if pos_imp_zdiv_nonneg_iff)
  moreover from False assms have "a div b \<le> 0"
    by (simp add: div_nonpos_pos_le0)
  ultimately show ?thesis
    by (simp add: floor_divide_of_int_eq)
qed




subsection \<open>The generator state\<close>

lemma dense_exit_beyond_seqlen_q:
  assumes "m_block * int (kBlockM t) \<ge> actual_seqlen_q binfo"
  shows "out_exit (compute_attn_1rowblock f t p binfo mem sm0 seed_offset blockIdx rng
           apply_dropout bidb bidh m_block) = Exit_beyond_seqlen_q"
  using assms by (simp add: compute_attn_1rowblock_def Let_def)

lemma dense_exit_empty_range:
  assumes "m_block * int (kBlockM t) < actual_seqlen_q binfo"
    and "Is_causal f \<or> Is_local f \<or> \<not> Is_even_MN f"
    and "n_block_max_dense f t p binfo m_block \<le> n_block_min_dense f t p binfo m_block"
  shows "out_exit (compute_attn_1rowblock f t p binfo mem sm0 seed_offset blockIdx rng
           apply_dropout bidb bidh m_block) = Exit_empty_range"
  using assms by (simp add: compute_attn_1rowblock_def Let_def)

text \<open>
  C9. When dropout is active, the block with index \<open>(0, 0, 0)\<close> of the dense kernel leaves
  the pair (seed, offset) in \<^verbatim>\<open>rng_state\<close> on every path through the kernel: the store
  comes before the return of a query tile beyond \<open>actual_seqlen_q\<close> and before the early
  exit of an empty K/V range, so the result carries it whichever exit is taken.
\<close>

theorem rng_state_saved:
  assumes "Is_dropout f"
  shows "out_rng_state (compute_attn_1rowblock f t p binfo mem sm0 seed_offset (0, 0, 0) rng
           apply_dropout bidb bidh m_block) = Some seed_offset"
  using assms
  by (simp add: compute_attn_1rowblock_def Let_def split: prod.splits)

theorem rng_state_saved_witness:
  "Is_dropout ex_flags
   \<and> out_exit (compute_attn_1rowblock ex_flags ex_traits ex_params ex_binfo ex_mem ex_smem
                 (7, 11) (0, 0, 0) None (\<lambda>m n rP. rP) 0 0 0) = Exit_empty_range
   \<and> out_rng_state (compute_attn_1rowblock ex_flags ex_traits ex_params ex_binfo ex_mem ex_smem
                 (7, 11) (0, 0, 0) None (\<lambda>m n rP. rP) 0 0 0) = Some (7, 11)"
proof -
  have d: "Is_dropout ex_flags"
    by (simp add: ex_flags_def)
  have e: "out_exit (compute_attn_1rowblock ex_flags ex_traits ex_params ex_binfo ex_mem ex_smem
                 (7, 11) (0, 0, 0) None (\<lambda>m n rP. rP) 0 0 0) = Exit_empty_range"
    by (rule dense_exit_empty_range)
       (simp_all add: ex_flags_def ex_traits_def ex_params_def ex_binfo_def
          n_block_max_dense_def n_block_min_dense_def ceil_div_def signed_divide_int_def
          Let_def)
  from d e rng_state_saved [OF d] show ?thesis
    by simp
qed

subsection \<open>Query heads and key/value heads\<close>






subsection \<open>Arithmetic of single-precision values\<close>

lemma is_score_cases: "is_score x \<longleftrightarrow> x = MInf \<or> (\<exists>r. x = Fin r)"
  by (cases x) (simp_all add: is_score_def)

lemma fl_add_zero_left [simp]: "fl_add (Fin 0) x = x"
  by (cases x) simp_all

lemma fl_sums_Fin:
  assumes "\<And>j. j < n \<Longrightarrow> g j = Fin (g' j)"
  shows "fl_sums (Fin x) n g = Fin (x + (\<Sum>j<n. g' j))"
  using assms by (induction n) simp_all

lemma fl_sum_Fin:
  assumes "\<And>j. j < n \<Longrightarrow> g j = Fin (g' j)"
  shows "fl_sum n g = Fin (\<Sum>j<n. g' j)"
  using fl_sums_Fin [where x = 0, OF assms] by (simp add: fl_sum_def)

lemma fl_maxs_score:
  assumes "is_score m" and "\<And>j. j < n \<Longrightarrow> is_score (xs j)"
  shows "is_score (fl_maxs m n xs)
         \<and> (fl_maxs m n xs = MInf \<longleftrightarrow> m = MInf \<and> (\<forall>j<n. xs j = MInf))"
  using assms
proof (induction n)
  case 0
  then show ?case by simp
next
  case (Suc n)
  then have ih: "is_score (fl_maxs m n xs)"
    "fl_maxs m n xs = MInf \<longleftrightarrow> m = MInf \<and> (\<forall>j<n. xs j = MInf)"
    by simp_all
  from Suc.prems have x: "is_score (xs n)" by simp
  from ih(1) x have "is_score (fl_max (fl_maxs m n xs) (xs n))
     \<and> (fl_max (fl_maxs m n xs) (xs n) = MInf \<longleftrightarrow> fl_maxs m n xs = MInf \<and> xs n = MInf)"
    by (auto simp: is_score_cases)
  with ih(2) show ?case
    by (auto simp: less_Suc_eq)
qed

subsection \<open>One step of the online softmax on a row\<close>

lemma wt_rescale: "wt sl2 M x * 2 powr ((M - M') * sl2) = wt sl2 M' x"
  by (cases x) (simp_all add: wt_def powr_add [symmetric] algebra_simps)

lemma wt_MInf [simp]: "wt sl2 M MInf = 0"
  by (simp add: wt_def)

lemma wt_pos: "0 < wt sl2 M (Fin r)"
  by (simp add: wt_def)

lemma wt_nonneg: "0 \<le> wt sl2 M x"
  by (cases x) (simp_all add: wt_def)

text \<open>The entry of \<open>P\<close> that \<open>scale_apply_exp2\<close> computes from a logit.\<close>

lemma exp2_entry:
  assumes "is_score x" and "is_score m'" and "0 < sl2" and "m' = MInf \<longrightarrow> x = MInf"
  shows "fl_exp2 (fl_sub (fl_mul x (Fin sl2))
           (if fl_eq m' MInf then Fin 0 else fl_mul m' (Fin sl2)))
         = Fin (wt sl2 (fin_of m') x)"
  using assms
  by (auto simp: is_score_cases fl_eq_def fl_sub_def wt_def fin_of_def)

text \<open>The factor by which \<open>softmax_rescale_o\<close> rescales a row.\<close>

lemma scores_scale_entry:
  assumes "is_score m" and "is_score m'" and "0 < sl2" and "m' = MInf \<longrightarrow> m = MInf"
    and "Check_inf \<or> m' \<noteq> MInf"
  shows "\<exists>s. fl_exp2 (fl_mul (fl_sub m (if Check_inf \<and> fl_eq m' MInf then Fin 0 else m'))
                      (Fin sl2)) = Fin s
             \<and> (\<forall>x. (m = MInf \<longrightarrow> x = MInf) \<longrightarrow>
                   wt sl2 (fin_of m) x * s = wt sl2 (fin_of m') x)"
proof (cases m)
  case (Fin M)
  with assms obtain M' where m': "m' = Fin M'"
    by (auto simp: is_score_cases)
  have "wt sl2 M x * 2 powr ((M - M') * sl2) = wt sl2 M' x" for x
    by (rule wt_rescale)
  with Fin m' show ?thesis
    by (simp add: fl_eq_def fl_sub_def fin_of_def)
next
  case MInf
  from MInf assms show ?thesis
    by (cases m') (auto simp: fl_eq_def fl_sub_def is_score_def)
qed (use assms in \<open>simp_all add: is_score_def\<close>)

lemma sum_tile:
  "(\<Sum>j<n. g (a + int j)) = (\<Sum>pos\<in>{a..<a + int n}. g pos)"
  by (rule sum.reindex_bij_witness [where i = "\<lambda>pos. nat (pos - a)" and j = "\<lambda>j. a + int j"])
     auto

text \<open>A step of the online softmax keeps \<open>row_inv\<close>: after the tile of the \<open>n\<close> keys from
  \<open>a\<close>, with logits \<open>xs\<close> and values \<open>sv\<close>, the state is that of the keys seen so far and
  of the tile. Without \<open>Check_inf\<close> the row must have a key that is not masked.\<close>

lemma row_step:
  assumes inv: "row_inv sl2 sc v J m l acc"
    and fin: "finite J" and disj: "J \<inter> {a..<a + int n} = {}"
    and xs: "\<And>j. j < n \<Longrightarrow> xs j = sc (a + int j)"
    and score: "\<And>j. j < n \<Longrightarrow> is_score (sc (a + int j))"
    and sv: "\<And>j c. j < n \<Longrightarrow> \<exists>y. sv j c = Fin y \<and> (xs j \<noteq> MInf \<longrightarrow> y = v (a + int j) c)"
    and sl2: "0 < sl2"
    and chk: "Check_inf \<or> m \<noteq> MInf \<or> (\<exists>j<n. xs j \<noteq> MInf)"
  defines "m' \<equiv> fl_maxs m n xs"
  defines "s \<equiv> fl_exp2 (fl_mul (fl_sub m (if Check_inf \<and> fl_eq m' MInf then Fin 0 else m'))
                  (Fin sl2))"
  defines "P \<equiv> \<lambda>j. fl_exp2 (fl_sub (fl_mul (xs j) (Fin sl2))
                  (if fl_eq m' MInf then Fin 0 else fl_mul m' (Fin sl2)))"
  shows "row_inv sl2 sc v (J \<union> {a..<a + int n}) m' (fl_add (fl_mul l s) (fl_sum n P))
           (\<lambda>c. fl_add (fl_mul (acc c) s) (fl_sum n (\<lambda>j. fl_mul (P j) (sv j c))))"
proof -
  from inv have sm: "is_score m" and mJ: "m = MInf \<longleftrightarrow> (\<forall>j\<in>J. sc j = MInf)"
    and l: "l = Fin (\<Sum>j\<in>J. wt sl2 (fin_of m) (sc j))"
    and acc: "\<And>c. acc c = Fin (\<Sum>j\<in>J. wt sl2 (fin_of m) (sc j) * v j c)"
    by (simp_all add: row_inv_def)
  have "is_score (fl_maxs m n xs)
         \<and> (fl_maxs m n xs = MInf \<longleftrightarrow> m = MInf \<and> (\<forall>j<n. xs j = MInf))"
    by (rule fl_maxs_score [OF sm]) (simp add: xs score)
  then have sm': "is_score m'" and m'0: "m' = MInf \<longleftrightarrow> m = MInf \<and> (\<forall>j<n. xs j = MInf)"
    by (simp_all add: m'_def)
  have P: "P j = Fin (wt sl2 (fin_of m') (sc (a + int j)))" if "j < n" for j
  proof -
    from that xs score have "is_score (xs j)" and e: "xs j = sc (a + int j)" by simp_all
    moreover from m'0 that have "m' = MInf \<longrightarrow> xs j = MInf" by simp
    ultimately show ?thesis
      unfolding P_def using sm' sl2 by (simp add: exp2_entry)
  qed
  from chk m'0 have "Check_inf \<or> m' \<noteq> MInf" by auto
  with scores_scale_entry [OF sm sm' sl2, of Check_inf] m'0
  obtain sr where s: "s = Fin sr"
    and sr: "\<And>x. (m = MInf \<longrightarrow> x = MInf) \<Longrightarrow> wt sl2 (fin_of m) x * sr = wt sl2 (fin_of m') x"
    unfolding s_def by blast
  have resc: "wt sl2 (fin_of m) (sc j) * sr = wt sl2 (fin_of m') (sc j)" if "j \<in> J" for j
    using that mJ by (intro sr) simp
  have fT: "finite {a..<a + int n}" by simp
  have sumP: "fl_sum n P = Fin (\<Sum>pos\<in>{a..<a + int n}. wt sl2 (fin_of m') (sc pos))"
    using fl_sum_Fin [of n P "\<lambda>j. wt sl2 (fin_of m') (sc (a + int j))"] P
    by (simp add: sum_tile [where g = "\<lambda>pos. wt sl2 (fin_of m') (sc pos)"])
  have l': "fl_add (fl_mul l s) (fl_sum n P)
      = Fin (\<Sum>j\<in>J \<union> {a..<a + int n}. wt sl2 (fin_of m') (sc j))"
    by (simp add: l s sumP sum_distrib_right resc sum.union_disjoint [OF fin fT disj])
  have PV: "fl_mul (P j) (sv j c) = Fin (wt sl2 (fin_of m') (sc (a + int j)) * v (a + int j) c)"
    if "j < n" for j c
  proof -
    from sv [OF that, of c] obtain y where y: "sv j c = Fin y"
      and yv: "xs j \<noteq> MInf \<longrightarrow> y = v (a + int j) c" by blast
    from xs that have e: "xs j = sc (a + int j)" by simp
    show ?thesis
    proof (cases "xs j = MInf")
      case True
      with e P [OF that] y show ?thesis by simp
    next
      case False
      with yv e P [OF that] y show ?thesis by simp
    qed
  qed
  have sumPV: "fl_sum n (\<lambda>j. fl_mul (P j) (sv j c))
      = Fin (\<Sum>pos\<in>{a..<a + int n}. wt sl2 (fin_of m') (sc pos) * v pos c)" for c
    using fl_sum_Fin [of n "\<lambda>j. fl_mul (P j) (sv j c)"
        "\<lambda>j. wt sl2 (fin_of m') (sc (a + int j)) * v (a + int j) c"] PV
    by (simp add: sum_tile [where g = "\<lambda>pos. wt sl2 (fin_of m') (sc pos) * v pos c"])
  have acc': "fl_add (fl_mul (acc c) s) (fl_sum n (\<lambda>j. fl_mul (P j) (sv j c)))
      = Fin (\<Sum>j\<in>J \<union> {a..<a + int n}. wt sl2 (fin_of m') (sc j) * v j c)" for c
  proof -
    have "(\<Sum>j\<in>J. wt sl2 (fin_of m) (sc j) * v j c) * sr
        = (\<Sum>j\<in>J. wt sl2 (fin_of m') (sc j) * v j c)"
      unfolding sum_distrib_right
      by (rule sum.cong) (simp_all add: resc [symmetric] mult_ac)
    then show ?thesis
      by (simp add: acc s sumPV sum.union_disjoint [OF fin fT disj])
  qed
  have m'JT: "m' = MInf \<longleftrightarrow> (\<forall>j\<in>J \<union> {a..<a + int n}. sc j = MInf)"
  proof -
    have "(\<forall>j<n. xs j = MInf) \<longleftrightarrow> (\<forall>pos\<in>{a..<a + int n}. sc pos = MInf)"
    proof
      assume h: "\<forall>j<n. xs j = MInf"
      show "\<forall>pos\<in>{a..<a + int n}. sc pos = MInf"
      proof
        fix pos assume "pos \<in> {a..<a + int n}"
        then have "nat (pos - a) < n" and "pos = a + int (nat (pos - a))" by auto
        with h xs show "sc pos = MInf" by metis
      qed
    next
      assume "\<forall>pos\<in>{a..<a + int n}. sc pos = MInf"
      then show "\<forall>j<n. xs j = MInf" using xs by simp
    qed
    with m'0 mJ show ?thesis by auto
  qed
  from sm' m'JT l' acc' show ?thesis
    by (simp add: row_inv_def)
qed

subsection \<open>The K/V loops on a row\<close>

lemma row_first:
  assumes xs: "\<And>j. j < n \<Longrightarrow> xs j = sc (a + int j)"
    and score: "\<And>j. j < n \<Longrightarrow> is_score (sc (a + int j))"
    and sv: "\<And>j c. j < n \<Longrightarrow> \<exists>y. sv j c = Fin y \<and> (xs j \<noteq> MInf \<longrightarrow> y = v (a + int j) c)"
    and sl2: "0 < sl2"
  defines "m' \<equiv> fl_maxs MInf n xs"
  defines "P \<equiv> \<lambda>j. fl_exp2 (fl_sub (fl_mul (xs j) (Fin sl2))
                  (if fl_eq m' MInf then Fin 0 else fl_mul m' (Fin sl2)))"
  shows "row_inv sl2 sc v {a..<a + int n} m' (fl_sum n P)
           (\<lambda>c. fl_add (Fin 0) (fl_sum n (\<lambda>j. fl_mul (P j) (sv j c))))"
proof -
  have inv0: "row_inv sl2 sc v {} MInf (Fin 0) (\<lambda>c. Fin 0)"
    by (simp add: row_inv_def is_score_def)
  have "is_score (fl_maxs MInf n xs)"
    using fl_maxs_score [of MInf n xs] xs score by (simp add: is_score_def)
  then have s: "fl_exp2 (fl_mul (fl_sub MInf (if True \<and> fl_eq m' MInf then Fin 0 else m'))
                  (Fin sl2)) = Fin 0"
    using sl2 by (auto simp: m'_def is_score_cases fl_eq_def fl_sub_def)
  from row_step [OF inv0 _ _ xs score sv sl2, where Check_inf = True and n = n]
  show ?thesis
    unfolding m'_def [symmetric] s by (simp add: P_def)
qed

lemma advance_tile_ptr:
  "advance_tile btab t p bs rs n (tile_ptr btab t p bs rs base n)
     = tile_ptr btab t p bs rs base (n - 1)"
  by (simp add: advance_tile_def advance_paged_def tile_ptr_def Let_def algebra_simps
      split: option.splits)

lemma tile_pos_div_mod:
  assumes "r < B"
  shows "(n * int B + int r) div int B = n" and "(n * int B + int r) mod int B = int r"
  using assms by (simp_all add: div_pos_pos_trivial)

lemma kv_at_tile:
  assumes "r < kBlockN t"
  shows "kv_at f t p mem btab bs rs base (n * int (kBlockN t) + int r) c
     = (if Is_even_K f \<or> int c < params_d p
        then mem (tile_ptr btab t p bs rs base n + int r * rs + int c) else 0)"
  using assms by (simp add: kv_at_def tile_pos_div_mod)

lemma masking_body_tKgK:
  "st_tKgK (masking_body f t p binfo mem mk chk dropout sQ m_block n_min ms n st)
     = (if n > n_min
        then advance_tile (block_table mem) t p (k_batch_stride p) (k_row_stride p) n (st_tKgK st)
        else st_tKgK st)"
  by (simp add: masking_body_def Let_def split_def)

lemma masking_body_tVgV:
  "st_tVgV (masking_body f t p binfo mem mk chk dropout sQ m_block n_min ms n st)
     = (if ms > 0
        then advance_tile (block_table mem) t p (v_batch_stride p) (v_row_stride p) (n + 1)
               (st_tVgV st)
        else st_tVgV st)"
  by (simp add: masking_body_def Let_def split_def)

lemma masking_body_sK:
  "st_sK (masking_body f t p binfo mem mk chk dropout sQ m_block n_min ms n st)
     = (if n > n_min
        then copy_g2s True (Is_even_K f) False (params_d p) (k_mem mem)
               (advance_tile (block_table mem) t p (k_batch_stride p) (k_row_stride p) n
                  (st_tKgK st))
               (k_row_stride p) 0 (st_sK st)
        else st_sK st)"
  by (simp add: masking_body_def Let_def split_def)

lemma gemm_row:
  assumes "\<And>c. c < kd \<Longrightarrow> sQ i c = Fin (qr c)"
    and "\<And>c. c < kd \<Longrightarrow> sK j c = Fin (kr c)"
  shows "gemm kd sQ sK i j = Fin (\<Sum>c<kd. qr c * kr c)"
  unfolding gemm_def by (rule fl_sum_Fin) (simp add: assms)

lemma masked_out_seqlen_k:
  "max_seqlen_k mk \<le> col \<Longrightarrow> masked_out cm lc False mk row col"
  by (simp add: masked_out_def)

lemma logit_score: "is_score (logit f t mk qr kk row pos)"
  by (simp add: logit_def is_score_def)

lemma logit_unmasked:
  "logit f t mk qr kk row pos \<noteq> MInf \<Longrightarrow> pos < max_seqlen_k mk"
  by (auto simp: logit_def masked_out_def split: if_splits)

text \<open>The masked logits that an iteration computes for row \<open>i\<close> are the reference logits of
  the keys of the tile, when the mask the iteration applies agrees with the full mask on
  the tile.\<close>

lemma masked_scores_logit:
  assumes sK: "\<And>c. n * int (kBlockN t) + int j < max_seqlen_k mk
                 \<Longrightarrow> sK j c = Fin (kk (n * int (kBlockN t) + int j) c)"
    and q: "\<And>c. c < kHeadDim t \<Longrightarrow> sQ i c = Fin (qr c)"
    and mask: "masked_out cm (Is_local f) ev mk (m_block * int (kBlockM t) + int i)
                 (n * int (kBlockN t) + int j)
               = masked_out (Is_causal f) (Is_local f) False mk
                   (m_block * int (kBlockM t) + int i) (n * int (kBlockN t) + int j)"
  shows "apply_mask f mk cm ev (gemm (kHeadDim t) sQ sK) (n * int (kBlockN t))
           (m_block * int (kBlockM t)) i j
         = logit f t mk qr kk (m_block * int (kBlockM t) + int i) (n * int (kBlockN t) + int j)"
proof (cases "masked_out (Is_causal f) (Is_local f) False mk
                (m_block * int (kBlockM t) + int i) (n * int (kBlockN t) + int j)")
  case True
  with mask show ?thesis
    by (simp add: apply_mask_def logit_def Let_def)
next
  case False
  then have "n * int (kBlockN t) + int j < max_seqlen_k mk"
    using masked_out_seqlen_k [of mk "n * int (kBlockN t) + int j"] by force
  then have "gemm (kHeadDim t) sQ sK i j
      = Fin (\<Sum>c<kHeadDim t. qr c * kk (n * int (kBlockN t) + int j) c)"
    by (intro gemm_row) (simp_all add: q sK)
  with False mask show ?thesis
    by (simp add: apply_mask_def logit_def Let_def)
qed

lemma tile_union:
  assumes "n < n_max"
  shows "{(n + 1) * int B..<n_max * int B} \<union> {n * int B..<n * int B + int B}
           = {(n - 1 + 1) * int B..<n_max * int B}"
    and "{(n + 1) * int B..<n_max * int B} \<inter> {n * int B..<n * int B + int B} = {}"
proof -
  from assms have "(n + 1) * int B \<le> n_max * int B"
    by (intro mult_right_mono) simp_all
  then show "{(n + 1) * int B..<n_max * int B} \<union> {n * int B..<n * int B + int B}
           = {(n - 1 + 1) * int B..<n_max * int B}"
    by (auto simp: algebra_simps)
  show "{(n + 1) * int B..<n_max * int B} \<inter> {n * int B..<n * int B + int B} = {}"
    by (auto simp: algebra_simps)
qed

lemma masking_body_inv:
  fixes kbase vbase :: int and f :: flags and t :: traits and p :: params and mem :: gmemory
    and mk :: mask and qr :: "nat \<Rightarrow> real" and m_block :: int and i :: nat
  defines "KP \<equiv> tile_ptr (block_table mem) t p (k_batch_stride p) (k_row_stride p) kbase"
    and "VP \<equiv> tile_ptr (block_table mem) t p (v_batch_stride p) (v_row_stride p) vbase"
    and "kk \<equiv> kv_at f t p (k_mem mem) (block_table mem) (k_batch_stride p) (k_row_stride p) kbase"
    and "vv \<equiv> kv_at f t p (v_mem mem) (block_table mem) (v_batch_stride p) (v_row_stride p) vbase"
  defines "sc \<equiv> logit f t mk qr kk (m_block * int (kBlockM t) + int i)"
  assumes inv: "loop_inv t (scale_softmax_log2 p) (actual_seqlen_k binfo) KP VP kk sc vv
                  n_min n_max i (ms = 0) n st"
    and sl2: "0 < scale_softmax_log2 p"
    and n: "n_min \<le> n" "n < n_max"
    and first: "ms = 0 \<Longrightarrow> n = n_max - 1"
    and q: "\<And>c. c < kHeadDim t \<Longrightarrow> sQ i c = Fin (qr c)"
    and msk: "max_seqlen_k mk = actual_seqlen_k binfo"
    and mask: "\<And>j. j < kBlockN t \<Longrightarrow>
        masked_out (Is_causal f) (Is_local f) (Is_even_MN f) mk
          (m_block * int (kBlockM t) + int i) (n * int (kBlockN t) + int j)
        = masked_out (Is_causal f) (Is_local f) False mk
          (m_block * int (kBlockM t) + int i) (n * int (kBlockN t) + int j)"
    and chk: "0 < ms \<Longrightarrow> chk"
  shows "loop_inv t (scale_softmax_log2 p) (actual_seqlen_k binfo) KP VP kk sc vv
           n_min n_max i False (n - 1)
           (masking_body f t p binfo mem mk chk (\<lambda>n rP. rP) sQ m_block n_min ms n st)"
proof -
  let ?B = "int (kBlockN t)"
  let ?st' = "masking_body f t p binfo mem mk chk (\<lambda>n rP. rP) sQ m_block n_min ms n st"
  from inv n have tK: "st_tKgK st = KP n"
    and tV: "st_tVgV st = VP (if ms = 0 then n else n + 1)"
    and sK: "\<And>r c. r < kBlockN t \<Longrightarrow> n * ?B + int r < actual_seqlen_k binfo
               \<Longrightarrow> st_sK st r c = Fin (kk (n * ?B + int r) c)"
    and ri: "row_inv (scale_softmax_log2 p) sc vv {(n + 1) * ?B..<n_max * ?B}
               (row_max (st_softmax st) i) (row_sum (st_softmax st) i) (st_acc_o st i)"
    by (simp_all add: loop_inv_def max_def)
  have mx: "max (n - 1) n_min = (if n_min < n then n - 1 else n)"
    using n by auto
  have 1: "st_tKgK ?st' = KP (max (n - 1) n_min)"
    unfolding mx using tK by (simp add: masking_body_tKgK KP_def advance_tile_ptr)
  have 2: "st_tVgV ?st' = VP (n - 1 + 1)"
    using tV by (simp add: masking_body_tVgV VP_def advance_tile_ptr)
  have 3: "st_sK ?st' r c = Fin (kk ((n - 1) * ?B + int r) c)"
    if "n_min \<le> n - 1" "r < kBlockN t" for r c
    using that tK
    by (simp add: masking_body_sK KP_def advance_tile_ptr copy_g2s_def kk_def kv_at_tile)
  let ?xs = "apply_mask f mk (Is_causal f) (Is_even_MN f) (gemm (kHeadDim t) sQ (st_sK st))
               (n * ?B) (m_block * int (kBlockM t)) i"
  let ?sV = "if 0 < ms
             then copy_g2s True (Is_even_K f) False (params_d p) (v_mem mem)
                    (advance_tile (block_table mem) t p (v_batch_stride p) (v_row_stride p)
                       (n + 1) (st_tVgV st)) (v_row_stride p) 0 (st_sV st)
             else copy_g2s (Is_even_MN f) (Is_even_K f) True (params_d p) (v_mem mem)
                    (st_tVgV st) (v_row_stride p) (actual_seqlen_k binfo - n * ?B) (st_sV st)"
  have xs: "?xs j = sc (n * ?B + int j)" if "j < kBlockN t" for j
    unfolding sc_def
    by (rule masked_scores_logit) (simp_all add: q sK that msk mask)
  have score: "is_score (sc (n * ?B + int j))" for j
    by (simp add: sc_def logit_score)
  have sv: "\<exists>y. ?sV j c = Fin y \<and> (?xs j \<noteq> MInf \<longrightarrow> y = vv (n * ?B + int j) c)"
    if "j < kBlockN t" for j c
  proof -
    have "n * ?B + int j < actual_seqlen_k binfo" if "?xs j \<noteq> MInf"
      using that xs [OF \<open>j < kBlockN t\<close>] logit_unmasked [of f t mk qr kk] msk
      by (simp add: sc_def)
    then show ?thesis
      using tV that
      by (auto simp: copy_g2s_def VP_def advance_tile_ptr vv_def kv_at_tile)
  qed
  have 4: "row_inv (scale_softmax_log2 p) sc vv {(n - 1 + 1) * ?B..<n_max * ?B}
             (row_max (st_softmax ?st') i) (row_sum (st_softmax ?st') i) (st_acc_o ?st' i)"
  proof (cases "ms = 0")
    case True
    with first ri have m0: "row_max (st_softmax st) i = MInf"
      and a0: "\<And>c. st_acc_o st i c = Fin 0"
      by (simp_all add: row_inv_def)
    from row_first [of "kBlockN t" ?xs sc "n * ?B" ?sV vv, OF xs score sv sl2]
    have "row_inv (scale_softmax_log2 p) sc vv {n * ?B..<n * ?B + ?B}
            (fl_maxs MInf (kBlockN t) ?xs)
            (fl_sum (kBlockN t) (\<lambda>j. fl_exp2 (fl_sub (fl_mul (?xs j) (Fin (scale_softmax_log2 p)))
               (if fl_eq (fl_maxs MInf (kBlockN t) ?xs) MInf then Fin 0
                else fl_mul (fl_maxs MInf (kBlockN t) ?xs) (Fin (scale_softmax_log2 p))))))
            (\<lambda>c. fl_add (Fin 0) (fl_sum (kBlockN t)
               (\<lambda>j. fl_mul (fl_exp2 (fl_sub (fl_mul (?xs j) (Fin (scale_softmax_log2 p)))
               (if fl_eq (fl_maxs MInf (kBlockN t) ?xs) MInf then Fin 0
                else fl_mul (fl_maxs MInf (kBlockN t) ?xs) (Fin (scale_softmax_log2 p)))))
                 (?sV j c))))"
      by simp
    moreover from True first have "{(n - 1 + 1) * ?B..<n_max * ?B} = {n * ?B..<n * ?B + ?B}"
      by (auto simp: algebra_simps)
    ultimately show ?thesis
      using True a0
      by (simp add: masking_body_def Let_def split_def softmax_rescale_o_def
          scale_apply_exp2_def gemm_rs_def)
  next
    case False
    then have c: "chk" using chk by simp
    have fin: "finite {(n + 1) * ?B..<n_max * ?B}" by simp
    from row_step [of "scale_softmax_log2 p" sc vv "{(n + 1) * ?B..<n_max * ?B}"
        "row_max (st_softmax st) i" "row_sum (st_softmax st) i" "st_acc_o st i"
        "n * ?B" "kBlockN t" ?xs ?sV chk,
        OF ri fin tile_union(2) [OF n(2)] xs score sv sl2] c
    show ?thesis
      using False
      by (simp add: tile_union(1) [OF n(2)] masking_body_def Let_def split_def
          softmax_rescale_o_def scale_apply_exp2_def gemm_rs_def)
  qed
  from 1 2 3 4 show ?thesis
    by (simp add: loop_inv_def)
qed

lemma main_body_tKgK:
  "st_tKgK (main_body f t p mem mk dropout sQ m_block n_min n st)
     = (if n > n_min
        then advance_tile (block_table mem) t p (k_batch_stride p) (k_row_stride p) n (st_tKgK st)
        else st_tKgK st)"
  by (simp add: main_body_def Let_def split_def)

lemma main_body_tVgV:
  "st_tVgV (main_body f t p mem mk dropout sQ m_block n_min n st)
     = advance_tile (block_table mem) t p (v_batch_stride p) (v_row_stride p) (n + 1)
         (st_tVgV st)"
  by (simp add: main_body_def Let_def split_def)

lemma main_body_sK:
  "st_sK (main_body f t p mem mk dropout sQ m_block n_min n st)
     = (if n > n_min
        then copy_g2s True (Is_even_K f) False (params_d p) (k_mem mem)
               (advance_tile (block_table mem) t p (k_batch_stride p) (k_row_stride p) n
                  (st_tKgK st))
               (k_row_stride p) 0 (st_sK st)
        else st_sK st)"
  by (simp add: main_body_def Let_def split_def)

lemma main_body_inv:
  fixes kbase vbase :: int and f :: flags and t :: traits and p :: params and mem :: gmemory
    and mk :: mask and qr :: "nat \<Rightarrow> real" and m_block :: int and i :: nat
  defines "KP \<equiv> tile_ptr (block_table mem) t p (k_batch_stride p) (k_row_stride p) kbase"
    and "VP \<equiv> tile_ptr (block_table mem) t p (v_batch_stride p) (v_row_stride p) vbase"
    and "kk \<equiv> kv_at f t p (k_mem mem) (block_table mem) (k_batch_stride p) (k_row_stride p) kbase"
    and "vv \<equiv> kv_at f t p (v_mem mem) (block_table mem) (v_batch_stride p) (v_row_stride p) vbase"
  defines "sc \<equiv> logit f t mk qr kk (m_block * int (kBlockM t) + int i)"
  assumes inv: "loop_inv t (scale_softmax_log2 p) sk KP VP kk sc vv n_min n_max i False n st"
    and sl2: "0 < scale_softmax_log2 p"
    and n: "n_min \<le> n" "n < n_max"
    and q: "\<And>c. c < kHeadDim t \<Longrightarrow> sQ i c = Fin (qr c)"
    and msk: "max_seqlen_k mk = sk"
    and mask: "\<And>j. j < kBlockN t \<Longrightarrow>
        masked_out False (Is_local f) True mk
          (m_block * int (kBlockM t) + int i) (n * int (kBlockN t) + int j)
        = masked_out (Is_causal f) (Is_local f) False mk
          (m_block * int (kBlockM t) + int i) (n * int (kBlockN t) + int j)"
    and chk: "Is_local f \<or> (\<exists>j<kBlockN t. \<not> masked_out (Is_causal f) (Is_local f) False mk
          (m_block * int (kBlockM t) + int i) (n * int (kBlockN t) + int j))"
  shows "loop_inv t (scale_softmax_log2 p) sk KP VP kk sc vv n_min n_max i False (n - 1)
           (main_body f t p mem mk (\<lambda>n rP. rP) sQ m_block n_min n st)"
proof -
  let ?B = "int (kBlockN t)"
  let ?st' = "main_body f t p mem mk (\<lambda>n rP. rP) sQ m_block n_min n st"
  from inv n have tK: "st_tKgK st = KP n"
    and tV: "st_tVgV st = VP (n + 1)"
    and sK: "\<And>r c. r < kBlockN t \<Longrightarrow> n * ?B + int r < sk
               \<Longrightarrow> st_sK st r c = Fin (kk (n * ?B + int r) c)"
    and ri: "row_inv (scale_softmax_log2 p) sc vv {(n + 1) * ?B..<n_max * ?B}
               (row_max (st_softmax st) i) (row_sum (st_softmax st) i) (st_acc_o st i)"
    by (simp_all add: loop_inv_def max_def)
  have mx: "max (n - 1) n_min = (if n_min < n then n - 1 else n)"
    using n by auto
  have 1: "st_tKgK ?st' = KP (max (n - 1) n_min)"
    unfolding mx using tK by (simp add: main_body_tKgK KP_def advance_tile_ptr)
  have 2: "st_tVgV ?st' = VP (n - 1 + 1)"
    using tV by (simp add: main_body_tVgV VP_def advance_tile_ptr)
  have 3: "st_sK ?st' r c = Fin (kk ((n - 1) * ?B + int r) c)"
    if "n_min \<le> n - 1" "r < kBlockN t" for r c
    using that tK
    by (simp add: main_body_sK KP_def advance_tile_ptr copy_g2s_def kk_def kv_at_tile)
  let ?xs = "apply_mask f mk False True (gemm (kHeadDim t) sQ (st_sK st))
               (n * ?B) (m_block * int (kBlockM t)) i"
  let ?sV = "copy_g2s True (Is_even_K f) False (params_d p) (v_mem mem)
               (advance_tile (block_table mem) t p (v_batch_stride p) (v_row_stride p)
                  (n + 1) (st_tVgV st)) (v_row_stride p) 0 (st_sV st)"
  have xs: "?xs j = sc (n * ?B + int j)" if "j < kBlockN t" for j
    unfolding sc_def
    by (rule masked_scores_logit) (simp_all add: q sK that msk mask)
  have score: "is_score (sc (n * ?B + int j))" for j
    by (simp add: sc_def logit_score)
  have sv: "\<exists>y. ?sV j c = Fin y \<and> (?xs j \<noteq> MInf \<longrightarrow> y = vv (n * ?B + int j) c)"
    if "j < kBlockN t" for j c
    using tV that
    by (auto simp: copy_g2s_def VP_def advance_tile_ptr vv_def kv_at_tile)
  have c: "Is_local f \<or> row_max (st_softmax st) i \<noteq> MInf \<or> (\<exists>j<kBlockN t. ?xs j \<noteq> MInf)"
  proof (cases "Is_local f")
    case False
    with chk obtain j where j: "j < kBlockN t"
      and "\<not> masked_out (Is_causal f) (Is_local f) False mk
          (m_block * int (kBlockM t) + int i) (n * int (kBlockN t) + int j)" by blast
    then have "sc (n * ?B + int j) \<noteq> MInf"
      by (simp add: sc_def logit_def)
    with xs [OF j] j show ?thesis by auto
  qed simp
  have fin: "finite {(n + 1) * ?B..<n_max * ?B}" by simp
  from row_step [of "scale_softmax_log2 p" sc vv "{(n + 1) * ?B..<n_max * ?B}"
      "row_max (st_softmax st) i" "row_sum (st_softmax st) i" "st_acc_o st i"
      "n * ?B" "kBlockN t" ?xs ?sV "Is_local f",
      OF ri fin tile_union(2) [OF n(2)] xs score sv sl2 c]
  have 4: "row_inv (scale_softmax_log2 p) sc vv {(n - 1 + 1) * ?B..<n_max * ?B}
             (row_max (st_softmax ?st') i) (row_sum (st_softmax ?st') i) (st_acc_o ?st' i)"
    by (simp add: tile_union(1) [OF n(2)] main_body_def Let_def split_def
        softmax_rescale_o_def scale_apply_exp2_def gemm_rs_def)
  from 1 2 3 4 show ?thesis
    by (simp add: loop_inv_def)
qed

text \<open>Invariant rules for the two loops.\<close>

lemma main_loop_rule:
  assumes "I n st" and "n_min - 1 \<le> n" and "n \<le> n0"
    and "\<And>n st. n_min \<le> n \<Longrightarrow> n \<le> n0 \<Longrightarrow> I n st \<Longrightarrow> I (n - 1) (body n st)"
  shows "fst (main_loop body n_min n st) = n_min - 1
         \<and> I (n_min - 1) (snd (main_loop body n_min n st))"
  using assms
proof (induction body n_min n st rule: main_loop.induct)
  case (1 body n_min n st)
  note step = "1.prems"(4)
  show ?case
  proof (cases "n_min \<le> n")
    case True
    with "1.prems"(1-3) have "I (n - 1) (body n st)"
      by (intro step) simp_all
    with "1.IH" [OF True _ _ _ step] True "1.prems"(1-3) show ?thesis
      by (subst (1 2) main_loop.simps) simp
  next
    case False
    with "1.prems" have "n = n_min - 1" by simp
    with "1.prems"(1) show ?thesis
      by (subst (1 2) main_loop.simps) simp
  qed
qed

lemma masking_loop_rule:
  assumes "I ms n st" and "ms < nsteps" and "n_min \<le> n"
    and "\<And>ms n st. ms < nsteps \<Longrightarrow> n_min \<le> n \<Longrightarrow> I ms n st
                 \<Longrightarrow> I (Suc ms) (n - 1) (body ms n st)"
  shows "\<exists>ms'. I ms' (fst (masking_loop body nsteps n_min ms n st))
                  (snd (masking_loop body nsteps n_min ms n st))
               \<and> n_min - 1 \<le> fst (masking_loop body nsteps n_min ms n st)
               \<and> (nsteps \<le> ms' \<or> fst (masking_loop body nsteps n_min ms n st) < n_min)"
  using assms
proof (induction body nsteps n_min ms n st rule: masking_loop.induct)
  case (1 body nsteps n_min ms n st)
  note step = "1.prems"(4)
  let ?st' = "body ms n st"
  from "1.prems"(1-3) have I': "I (Suc ms) (n - 1) ?st'"
    by (intro step) simp_all
  show ?case
  proof (cases "nsteps > 1 \<and> n \<le> n_min")
    case True
    with "1.prems"(1-3) I' show ?thesis
      by (subst (1 2 3 4) masking_loop.simps) (auto simp: Let_def)
  next
    case False
    show ?thesis
    proof (cases "Suc ms < nsteps")
      case True
      with False have "n_min \<le> n - 1" by simp
      from "1.IH" [OF "1.prems"(2) refl False I' True this step] False "1.prems"(2)
      show ?thesis
        by (subst (1 2 3 4) masking_loop.simps) (auto simp: Let_def)
    next
      case F2: False
      then have "masking_loop body nsteps n_min (Suc ms) (n - 1) ?st' = (n - 1, ?st')"
        by (subst masking_loop.simps) simp
      with False "1.prems"(1-3) I' F2 show ?thesis
        by (subst (1 2 3 4) masking_loop.simps) (auto simp: Let_def intro!: exI [of _ "Suc ms"])
    qed
  qed
qed

subsection \<open>The tiles that need masking\<close>

lemma ceil_div_mult_ge:
  assumes "0 < c"
  shows "a \<le> ceil_div a c * c"
proof (cases "- c < a")
  case True
  have "- a = (- a) div c * c + (- a) mod c" by simp
  moreover have "0 \<le> (- a) mod c" using assms by simp
  ultimately have "(- a) div c * c \<le> - a" by linarith
  then show ?thesis by (simp add: ceil_div_nonneg [OF assms True])
next
  case False
  with assms have n: "a + c - 1 < 0" by simp
  have "- (a + c - 1) = (- (a + c - 1)) div c * c + (- (a + c - 1)) mod c" by simp
  moreover have "0 \<le> (- (a + c - 1)) mod c" using assms by simp
  ultimately have "(- (a + c - 1)) div c * c \<le> - (a + c - 1)" by linarith
  with assms show ?thesis
    unfolding ceil_div_def sdiv_neg_div [OF n assms] by simp
qed

lemma ceil_div_mult_lt:
  assumes "0 < c" and "- c < a"
  shows "ceil_div a c * c < a + c"
proof -
  have "- a = (- a) div c * c + (- a) mod c" by simp
  moreover have "(- a) mod c < c" using assms by simp
  ultimately have "- a < (- a) div c * c + c" by linarith
  then show ?thesis by (simp add: ceil_div_nonneg [OF assms])
qed

lemma ceil_div_dvd:
  assumes "0 < c" and "0 \<le> a" and "c dvd a"
  shows "ceil_div a c * c = a"
proof -
  from assms(1,2) have "- c < a" by simp
  with assms(1,3) show ?thesis by (simp add: ceil_div_nonneg)
qed

lemma ceil_div_pos:
  assumes "0 < c" and "0 < a"
  shows "0 < ceil_div a c"
proof (rule ccontr)
  assume "\<not> 0 < ceil_div a c"
  then have "ceil_div a c * c \<le> 0"
    using assms(1) by (simp add: mult_le_0_iff)
  with ceil_div_mult_ge [OF assms(1), of a] assms(2) show False by simp
qed

text \<open>An upper bound of the tile range by \<open>ceil_div\<close>, for a range that reaches above tile
  \<open>0\<close>.\<close>

lemma ceil_div_clamp:
  assumes "0 < c" and "n \<le> ceil_div a c" and "0 < n"
  shows "0 < a" and "n * c < a + c"
proof -
  show a: "0 < a"
  proof (rule ccontr)
    assume "\<not> 0 < a"
    then have "ceil_div a c \<le> 0" using assms(1) by (intro ceil_div_nonpos) simp_all
    with assms(2,3) show False by simp
  qed
  from assms(2) have "n * c \<le> ceil_div a c * c"
    using assms(1) by (intro mult_right_mono) simp_all
  moreover have "ceil_div a c * c < a + c"
    using assms(1) a by (intro ceil_div_mult_lt) simp_all
  ultimately show "n * c < a + c" by linarith
qed

text \<open>A multiple of \<open>g\<close> that is below another multiple of \<open>g\<close> is below it by \<open>g\<close>.\<close>

lemma dvd_less_step:
  assumes "(g::int) dvd x" and "g dvd y" and "x < y" and "0 < g"
  shows "x + g \<le> y"
proof -
  from assms(1) obtain k where "x = g * k" by (rule dvdE)
  moreover from assms(2) obtain l where "y = g * l" by (rule dvdE)
  ultimately have "x = g * k" "y = g * l" by simp_all
  with assms have "k < l" by simp
  then have "k + 1 \<le> l" by simp
  with \<open>0 < g\<close> have "g * (k + 1) \<le> g * l" by (intro mult_left_mono) simp_all
  with \<open>x = g * k\<close> \<open>y = g * l\<close> show ?thesis by (simp add: algebra_simps)
qed

text \<open>The tiles of the second loop lie below the causal diagonal of every row of the
  query tile.\<close>

lemma causal_interior:
  fixes Br Bc :: nat and m n n_max sk sq :: int
  assumes Br: "0 < Br" and Bc: "0 < Bc"
    and clamp: "n_max * int Bc < (m + 1) * int Br + sk - sq + int Bc"
    and n: "n \<le> n_max - 1 - int nsteps"
    and steps: "nsteps = (if ev then nat (ceil_div (int Br) (int Bc))
                          else nat (ceil_div (int Br) (int Bc) + 1))"
    and even: "ev \<Longrightarrow> int Bc dvd sk \<and> int Br dvd sq"
    and shape: "Bc dvd Br \<or> Br dvd Bc"
  shows "(n + 1) * int Bc \<le> m * int Br + sk - sq"
proof -
  let ?X = "(m + 1) * int Br + sk - sq"
  let ?c = "ceil_div (int Br) (int Bc)"
  have cpos: "0 < ?c" using Br Bc by (intro ceil_div_pos) simp_all
  have cge: "int Br \<le> ?c * int Bc" using Bc by (intro ceil_div_mult_ge) simp
  from clamp have lt: "n_max * int Bc < ?X + int Bc" .
  show ?thesis
  proof (cases ev)
    case False
    with steps cpos have "int nsteps = ?c + 1" by simp
    with n have "n + 1 \<le> n_max - 1 - ?c" by simp
    then have "(n + 1) * int Bc \<le> (n_max - 1 - ?c) * int Bc"
      by (intro mult_right_mono) simp_all
    with lt cge show ?thesis by (simp add: algebra_simps)
  next
    case True
    with steps cpos have ns: "int nsteps = ?c" by simp
    from even True have dk: "int Bc dvd sk" and dq: "int Br dvd sq" by simp_all
    from n ns have "n + 1 \<le> n_max - ?c" by simp
    then have le: "(n + 1) * int Bc \<le> (n_max - ?c) * int Bc"
      by (intro mult_right_mono) simp_all
    from shape show ?thesis
    proof
      assume "Bc dvd Br"
      then have d: "int Bc dvd int Br" by simp
      then have "?c * int Bc = int Br" using Bc by (intro ceil_div_dvd) simp_all
      moreover have "int Bc dvd ?X"
        using d dk dq by (intro dvd_diff dvd_add dvd_mult) (auto intro: dvd_trans)
      then have "int Bc dvd ?X + int Bc" by simp
      with lt have "n_max * int Bc + int Bc \<le> ?X + int Bc"
        using Bc by (intro dvd_less_step) simp_all
      ultimately show ?thesis using le by (simp add: algebra_simps)
    next
      assume "Br dvd Bc"
      then have d: "int Br dvd int Bc" by simp
      with Bc Br have "int Br \<le> int Bc" by (intro zdvd_imp_le) simp_all
      have "?c * int Bc < int Br + int Bc" using Bc by (intro ceil_div_mult_lt) simp_all
      with \<open>int Br \<le> int Bc\<close> have "?c * int Bc < 2 * int Bc" by simp
      then have "?c < 2" using Bc by (simp add: mult_less_cancel_right)
      with cpos have c1: "?c = 1" by simp
      have "int Br dvd ?X"
        using d dk dq by (intro dvd_diff dvd_add dvd_mult) (auto intro: dvd_trans)
      then have "int Br dvd ?X + int Bc" using d by simp
      moreover have "int Br dvd n_max * int Bc" using d by simp
      ultimately have "n_max * int Bc + int Br \<le> ?X + int Bc"
        using lt Br by (intro dvd_less_step) simp_all
      with le c1 show ?thesis by (simp add: algebra_simps)
    qed
  qed
qed

lemma n_masking_steps_pos:
  assumes "0 < kBlockM t" and "0 < kBlockN t"
  shows "0 < n_masking_steps f t"
  using ceil_div_pos [of "int (kBlockN t)" "int (kBlockM t)"] assms
  by (simp add: n_masking_steps_def)

lemma n_masking_steps_one:
  assumes "1 < n_masking_steps f t"
  shows "Is_causal f \<or> Is_local f"
  using assms by (auto simp: n_masking_steps_def split: if_splits)

text \<open>The mask of the first loop agrees with the full mask on every tile of the range,
  and the mask of the second loop on the tiles that the second loop visits.\<close>

lemma mask_first_loop:
  assumes Bc: "0 < kBlockN t" and n: "n < n_max" and j: "j < kBlockN t"
    and top: "(n_max - 1) * int (kBlockN t) < max_seqlen_k mk"
    and even: "ev \<Longrightarrow> int (kBlockN t) dvd max_seqlen_k mk"
  shows "masked_out cm lc ev mk row (n * int (kBlockN t) + int j)
         = masked_out cm lc False mk row (n * int (kBlockN t) + int j)"
proof (cases ev)
  case True
  have "(n_max - 1) * int (kBlockN t) + int (kBlockN t) \<le> max_seqlen_k mk"
    using even [OF True] top Bc by (intro dvd_less_step) simp_all
  moreover from n have "(n + 1) * int (kBlockN t) \<le> n_max * int (kBlockN t)"
    by (intro mult_right_mono) simp_all
  ultimately have "n * int (kBlockN t) + int j < max_seqlen_k mk"
    using j by (simp add: algebra_simps)
  then show ?thesis
    by (simp add: masked_out_def)
qed simp

lemma mask_main_loop:
  assumes Br: "0 < kBlockM t" and Bc: "0 < kBlockN t" and j: "j < kBlockN t"
    and n: "n \<le> n_max - 1 - int (n_masking_steps f t)"
    and top: "(n_max - 1) * int (kBlockN t) < max_seqlen_k mk"
    and even: "Is_even_MN f \<Longrightarrow> int (kBlockN t) dvd max_seqlen_k mk
                 \<and> int (kBlockM t) dvd max_seqlen_q mk"
    and shape: "kBlockN t dvd kBlockM t \<or> kBlockM t dvd kBlockN t"
    and clamp: "Is_causal f \<Longrightarrow> n_max * int (kBlockN t)
                  < (m_block + 1) * int (kBlockM t) + max_seqlen_k mk - max_seqlen_q mk
                    + int (kBlockN t)"
    and causal: "Is_causal f \<Longrightarrow> \<not> Is_local f"
  shows "masked_out False (Is_local f) True mk (m_block * int (kBlockM t) + int i)
           (n * int (kBlockN t) + int j)
         = masked_out (Is_causal f) (Is_local f) False mk (m_block * int (kBlockM t) + int i)
             (n * int (kBlockN t) + int j)"
    and "\<not> Is_local f \<Longrightarrow> \<not> masked_out (Is_causal f) (Is_local f) False mk
             (m_block * int (kBlockM t) + int i) (n * int (kBlockN t) + int j)"
proof -
  let ?B = "int (kBlockN t)"
  have sp: "0 < n_masking_steps f t"
    using Br Bc by (rule n_masking_steps_pos)
  with n have "n + 1 \<le> n_max - 1" by simp
  then have "(n + 1) * ?B \<le> (n_max - 1) * ?B"
    by (intro mult_right_mono) simp_all
  with top j have k: "n * ?B + int j < max_seqlen_k mk"
    by (simp add: algebra_simps)
  have c: "n * ?B + int j \<le> m_block * int (kBlockM t) + int i + max_seqlen_k mk - max_seqlen_q mk"
    if "Is_causal f"
  proof -
    from that causal have "n_masking_steps f t
        = (if Is_even_MN f then nat (ceil_div (int (kBlockM t)) ?B)
           else nat (ceil_div (int (kBlockM t)) ?B + 1))"
      by (simp add: n_masking_steps_def)
    from causal_interior [OF Br Bc clamp [OF that] n this even shape]
    have "(n + 1) * ?B \<le> m_block * int (kBlockM t) + max_seqlen_k mk - max_seqlen_q mk"
      by simp
    with j show ?thesis by (simp add: algebra_simps)
  qed
  from k c show "masked_out False (Is_local f) True mk (m_block * int (kBlockM t) + int i)
           (n * ?B + int j)
         = masked_out (Is_causal f) (Is_local f) False mk (m_block * int (kBlockM t) + int i)
             (n * ?B + int j)"
    by (auto simp: masked_out_def)
  from k c show "\<not> Is_local f \<Longrightarrow> \<not> masked_out (Is_causal f) (Is_local f) False mk
             (m_block * int (kBlockM t) + int i) (n * ?B + int j)"
    by (auto simp: masked_out_def)
qed

text \<open>The two loops of a block, on row \<open>i\<close> of its query tile: from a state in which the
  last K tile of the range is loaded and nothing is accumulated, they end with the online
  softmax of all the keys of the tiles \<open>n_min\<close> to \<open>n_max - 1\<close>.\<close>

lemma attn_loops_row:
  fixes kbase vbase :: int and f :: flags and t :: traits and p :: params and mem :: gmemory
    and mk :: mask and qr :: "nat \<Rightarrow> real" and m_block :: int and i :: nat
    and binfo :: block_info
  defines "KP \<equiv> tile_ptr (block_table mem) t p (k_batch_stride p) (k_row_stride p) kbase"
    and "VP \<equiv> tile_ptr (block_table mem) t p (v_batch_stride p) (v_row_stride p) vbase"
    and "kk \<equiv> kv_at f t p (k_mem mem) (block_table mem) (k_batch_stride p) (k_row_stride p) kbase"
    and "vv \<equiv> kv_at f t p (v_mem mem) (block_table mem) (v_batch_stride p) (v_row_stride p) vbase"
  defines "sc \<equiv> logit f t mk qr kk (m_block * int (kBlockM t) + int i)"
  defines "B \<equiv> int (kBlockN t)"
  assumes Br: "0 < kBlockM t" and Bc: "0 < kBlockN t"
    and sl2: "0 < scale_softmax_log2 p"
    and range: "n_min < n_max"
    and top: "(n_max - 1) * B < actual_seqlen_k binfo"
    and even: "Is_even_MN f \<Longrightarrow> B dvd actual_seqlen_k binfo
                 \<and> int (kBlockM t) dvd actual_seqlen_q binfo"
    and shape: "kBlockN t dvd kBlockM t \<or> kBlockM t dvd kBlockN t"
    and clamp: "Is_causal f \<Longrightarrow> n_max * B
                  < (m_block + 1) * int (kBlockM t) + actual_seqlen_k binfo
                    - actual_seqlen_q binfo + B"
    and causal: "Is_causal f \<Longrightarrow> \<not> Is_local f"
    and mk: "max_seqlen_k mk = actual_seqlen_k binfo" "max_seqlen_q mk = actual_seqlen_q binfo"
    and chk: "Is_causal f \<or> Is_local f \<Longrightarrow> chk"
    and q: "\<And>c. c < kHeadDim t \<Longrightarrow> sQ i c = Fin (qr c)"
    and st0: "st_tKgK st0 = KP (n_max - 1)" "st_tVgV st0 = VP (n_max - 1)"
      "\<And>r c. r < kBlockN t \<Longrightarrow> (n_max - 1) * B + int r < actual_seqlen_k binfo
         \<Longrightarrow> st_sK st0 r c = Fin (kk ((n_max - 1) * B + int r) c)"
      "row_max (st_softmax st0) i = MInf" "row_sum (st_softmax st0) i = Fin 0"
      "\<And>c. st_acc_o st0 i c = Fin 0"
  defines "ml \<equiv> masking_loop
                   (masking_body f t p binfo mem mk chk (\<lambda>n rP. rP) sQ m_block n_min)
                   (n_masking_steps f t) n_min 0 (n_max - 1) st0"
  defines "st2 \<equiv> snd (main_loop (main_body f t p mem mk (\<lambda>n rP. rP) sQ m_block n_min)
                         n_min (fst ml) (snd ml))"
  shows "row_inv (scale_softmax_log2 p) sc vv {n_min * B..<n_max * B}
           (row_max (st_softmax st2) i) (row_sum (st_softmax st2) i) (st_acc_o st2 i)"
proof -
  let ?sk = "actual_seqlen_k binfo"
  let ?li = "loop_inv t (scale_softmax_log2 p) ?sk KP VP kk sc vv n_min n_max i"
  let ?I = "\<lambda>ms n st. int ms = n_max - 1 - n \<and> ?li (ms = 0) n st"
  let ?mbody = "masking_body f t p binfo mem mk chk (\<lambda>n rP. rP) sQ m_block n_min"
  let ?body = "main_body f t p mem mk (\<lambda>n rP. rP) sQ m_block n_min"
  let ?ns = "n_masking_steps f t"
  have sp: "0 < ?ns" using Br Bc by (rule n_masking_steps_pos)
  from range have mx0: "max (n_max - 1) n_min = n_max - 1" by simp
  have I0: "?I 0 (n_max - 1) st0"
    using st0 by (simp add: loop_inv_def mx0 row_inv_def is_score_def B_def)
  have step1: "?I (Suc ms) (n - 1) (?mbody ms n st)"
    if "ms < ?ns" "n_min \<le> n" "?I ms n st" for ms n st
  proof -
    from that have n: "n < n_max" and f: "ms = 0 \<Longrightarrow> n = n_max - 1" by simp_all
    have c: "chk" if "0 < ms"
      using that \<open>ms < ?ns\<close> n_masking_steps_one [of f t] chk by simp
    have "?li False (n - 1) (?mbody ms n st)"
      unfolding KP_def VP_def kk_def vv_def sc_def
    proof (rule masking_body_inv)
      show "loop_inv t (scale_softmax_log2 p) ?sk
              (tile_ptr (block_table mem) t p (k_batch_stride p) (k_row_stride p) kbase)
              (tile_ptr (block_table mem) t p (v_batch_stride p) (v_row_stride p) vbase)
              (kv_at f t p (k_mem mem) (block_table mem) (k_batch_stride p) (k_row_stride p) kbase)
              (logit f t mk qr
                (kv_at f t p (k_mem mem) (block_table mem) (k_batch_stride p) (k_row_stride p)
                   kbase) (m_block * int (kBlockM t) + int i))
              (kv_at f t p (v_mem mem) (block_table mem) (v_batch_stride p) (v_row_stride p) vbase)
              n_min n_max i (ms = 0) n st"
        using that(3) by (simp add: KP_def VP_def kk_def vv_def sc_def)
      show "masked_out (Is_causal f) (Is_local f) (Is_even_MN f) mk
              (m_block * int (kBlockM t) + int i) (n * int (kBlockN t) + int j)
            = masked_out (Is_causal f) (Is_local f) False mk
              (m_block * int (kBlockM t) + int i) (n * int (kBlockN t) + int j)"
        if "j < kBlockN t" for j
        using Bc n that top even by (intro mask_first_loop [of t n n_max]) (simp_all add: mk B_def)
    qed (use sl2 that n f q mk c in simp_all)
    with that show ?thesis by simp
  qed
  have "\<exists>ms'. ?I ms' (fst ml) (snd ml) \<and> n_min - 1 \<le> fst ml
           \<and> (?ns \<le> ms' \<or> fst ml < n_min)"
    unfolding ml_def
  proof (rule masking_loop_rule [where I = ?I, OF I0 sp])
    show "n_min \<le> n_max - 1" using range by simp
  qed (rule step1)
  then obtain ms' where I1: "?I ms' (fst ml) (snd ml)" and lo: "n_min - 1 \<le> fst ml"
    and ex: "?ns \<le> ms' \<or> fst ml < n_min"
    by blast
  from I1 ex sp range have "ms' \<noteq> 0" by auto
  with I1 have I1': "?li False (fst ml) (snd ml)" by simp
  have step2: "?li False (n - 1) (?body n st)"
    if "n_min \<le> n" "n \<le> fst ml" "?li False n st" for n st
  proof -
    from that ex I1 have n: "n \<le> n_max - 1 - int ?ns" by auto
    with sp have nm: "n < n_max" by simp
    note mm = mask_main_loop [of t _ n n_max f mk m_block i, OF Br Bc _ n]
    show ?thesis
      unfolding KP_def VP_def kk_def vv_def sc_def
    proof (rule main_body_inv)
      show "loop_inv t (scale_softmax_log2 p) ?sk
              (tile_ptr (block_table mem) t p (k_batch_stride p) (k_row_stride p) kbase)
              (tile_ptr (block_table mem) t p (v_batch_stride p) (v_row_stride p) vbase)
              (kv_at f t p (k_mem mem) (block_table mem) (k_batch_stride p) (k_row_stride p) kbase)
              (logit f t mk qr
                (kv_at f t p (k_mem mem) (block_table mem) (k_batch_stride p) (k_row_stride p)
                   kbase) (m_block * int (kBlockM t) + int i))
              (kv_at f t p (v_mem mem) (block_table mem) (v_batch_stride p) (v_row_stride p) vbase)
              n_min n_max i False n st"
        using that(3) by (simp add: KP_def VP_def kk_def vv_def sc_def)
      show "masked_out False (Is_local f) True mk
              (m_block * int (kBlockM t) + int i) (n * int (kBlockN t) + int j)
            = masked_out (Is_causal f) (Is_local f) False mk
              (m_block * int (kBlockM t) + int i) (n * int (kBlockN t) + int j)"
        if "j < kBlockN t" for j
        using that top even shape clamp causal by (intro mm(1)) (simp_all add: mk B_def)
      show "Is_local f \<or> (\<exists>j<kBlockN t. \<not> masked_out (Is_causal f) (Is_local f) False mk
              (m_block * int (kBlockM t) + int i) (n * int (kBlockN t) + int j))"
      proof (cases "Is_local f")
        case False
        have "\<not> masked_out (Is_causal f) (Is_local f) False mk
              (m_block * int (kBlockM t) + int i) (n * int (kBlockN t) + int 0)"
          using Bc top even shape clamp causal False
          by (intro mm(2)) (simp_all add: mk B_def)
        with Bc show ?thesis by blast
      qed simp
    qed (use sl2 that nm q mk in simp_all)
  qed
  from main_loop_rule [of "?li False" "fst ml" "snd ml" n_min "fst ml" ?body,
      OF I1' lo order_refl step2]
  have "?li False (n_min - 1) st2"
    by (simp add: st2_def)
  then show ?thesis
    by (simp add: loop_inv_def B_def)
qed

subsection \<open>The epilogue\<close>

lemma wt_exp_weight:
  assumes "sl2 = scale / ln 2"
  shows "wt sl2 M x = exp_weight scale x * exp (- (scale * M))"
proof (cases x)
  case (Fin r)
  have "(r * sl2 - M * sl2) * ln 2 = scale * r - scale * M"
    using assms by (simp add: algebra_simps)
  then have "2 powr (r * sl2 - M * sl2) = exp (scale * r - scale * M)"
    by (simp add: powr_def mult.commute)
  with Fin show ?thesis
    by (simp add: wt_def exp_weight_def exp_diff exp_minus divide_inverse)
qed (simp_all add: wt_def exp_weight_def)

lemma exp_weight_nonneg: "0 \<le> exp_weight scale x"
  by (cases x) (simp_all add: exp_weight_def)

lemma exp_weight_sum_zero:
  assumes "finite J" and "\<And>j. j \<in> J \<Longrightarrow> is_score (sc j)"
  shows "(\<Sum>j\<in>J. exp_weight scale (sc j)) = 0 \<longleftrightarrow> (\<forall>j\<in>J. sc j = MInf)"
proof -
  have "(\<Sum>j\<in>J. exp_weight scale (sc j)) = 0 \<longleftrightarrow> (\<forall>j\<in>J. exp_weight scale (sc j) = 0)"
    using assms(1) by (intro sum_nonneg_eq_0_iff) (simp_all add: exp_weight_nonneg)
  also have "\<dots> \<longleftrightarrow> (\<forall>j\<in>J. sc j = MInf)"
  proof (intro ball_cong refl)
    fix j assume "j \<in> J"
    with assms(2) have "is_score (sc j)" by simp
    then show "exp_weight scale (sc j) = 0 \<longleftrightarrow> sc j = MInf"
      by (auto simp: is_score_cases exp_weight_def)
  qed
  finally show ?thesis .
qed

text \<open>The epilogue on a row whose state is that of the online softmax over the keys \<open>J\<close>.\<close>

lemma normalize_row:
  assumes inv: "row_inv sl2 sc v J (row_max sm i) (row_sum sm i) (acc_o i)"
    and fin: "finite J" and sl2: "sl2 = scale / ln 2"
    and score: "\<And>j. j \<in> J \<Longrightarrow> is_score (sc j)"
  defines "W \<equiv> \<Sum>j\<in>J. exp_weight scale (sc j)"
  shows "fst (normalize_softmax_lse False split sm acc_o scale rp) i
           = (if W = 0 then (if split then MInf else PInf) else Fin (ln W))"
    and "snd (normalize_softmax_lse False split sm acc_o scale rp) i c
           = (if W = 0 then Fin 0
              else Fin ((\<Sum>j\<in>J. exp_weight scale (sc j) * v j c) / W))"
proof -
  let ?M = "fin_of (row_max sm i)"
  let ?e = "exp (- (scale * ?M))"
  from inv have sm: "is_score (row_max sm i)"
    and mJ: "row_max sm i = MInf \<longleftrightarrow> (\<forall>j\<in>J. sc j = MInf)"
    and l: "row_sum sm i = Fin (\<Sum>j\<in>J. wt sl2 ?M (sc j))"
    and acc: "\<And>c. acc_o i c = Fin (\<Sum>j\<in>J. wt sl2 ?M (sc j) * v j c)"
    by (simp_all add: row_inv_def)
  have L: "(\<Sum>j\<in>J. wt sl2 ?M (sc j)) = W * ?e"
    by (simp add: W_def wt_exp_weight [OF sl2] sum_distrib_right)
  have A: "(\<Sum>j\<in>J. wt sl2 ?M (sc j) * v j c) = (\<Sum>j\<in>J. exp_weight scale (sc j) * v j c) * ?e"
    for c
    unfolding sum_distrib_right
    by (rule sum.cong) (simp_all add: wt_exp_weight [OF sl2] mult_ac)
  have W0: "W = 0 \<longleftrightarrow> (\<forall>j\<in>J. sc j = MInf)"
    unfolding W_def using fin score by (rule exp_weight_sum_zero)
  have Wn: "0 \<le> W"
    unfolding W_def by (intro sum_nonneg exp_weight_nonneg)
  show "fst (normalize_softmax_lse False split sm acc_o scale rp) i
           = (if W = 0 then (if split then MInf else PInf) else Fin (ln W))"
  proof (cases "W = 0")
    case True
    then show ?thesis
      by (simp add: normalize_softmax_lse_def Let_def l L fl_eq_def)
  next
    case False
    with W0 mJ sm obtain M where M: "row_max sm i = Fin M"
      by (auto simp: is_score_cases)
    from False Wn have Wp: "0 < W" by simp
    then have "ln (W * exp (- (scale * M))) = ln W - scale * M"
      by (simp add: ln_mult)
    moreover from L M have "(\<Sum>j\<in>J. wt sl2 M (sc j)) = W * exp (- (scale * M))"
      by (simp add: fin_of_def)
    moreover from l M have "row_sum sm i = Fin (\<Sum>j\<in>J. wt sl2 M (sc j))"
      by (simp add: fin_of_def)
    ultimately show ?thesis
      using False Wp M
      by (simp add: normalize_softmax_lse_def Let_def fl_eq_def)
  qed
  show "snd (normalize_softmax_lse False split sm acc_o scale rp) i c
           = (if W = 0 then Fin 0
              else Fin ((\<Sum>j\<in>J. exp_weight scale (sc j) * v j c) / W))"
  proof (cases "W = 0")
    case True
    with W0 have "exp_weight scale (sc j) = 0" if "j \<in> J" for j
      using that by (simp add: exp_weight_def)
    then have "(\<Sum>j\<in>J. exp_weight scale (sc j) * v j c) = 0"
      by simp
    with True show ?thesis
      by (simp add: normalize_softmax_lse_def Let_def l L acc A fl_eq_def)
  next
    case False
    then show ?thesis
      by (simp add: normalize_softmax_lse_def Let_def l L acc A fl_eq_def)
  qed
qed

subsection \<open>The dense kernel against the reference\<close>

lemma sum_zero_fill:
  assumes "0 \<le> d" and "d \<le> int D" and "ev \<Longrightarrow> d = int D"
  shows "(\<Sum>c<D. (if ev \<or> int c < d then a c else 0) * (if ev \<or> int c < d then b c else 0))
         = (\<Sum>c<nat d. a c * (b c :: real))"
proof -
  have "(\<Sum>c<D. (if ev \<or> int c < d then a c else 0) * (if ev \<or> int c < d then b c else 0))
        = (\<Sum>c\<in>{..<D}. if c \<in> {..<nat d} then a c * b c else 0)"
    using assms by (intro sum.cong) auto
  also have "\<dots> = (\<Sum>c\<in>{..<D} \<inter> {..<nat d}. a c * b c)"
    by (simp add: sum.inter_restrict)
  also have "{..<D} \<inter> {..<nat d} = {..<nat d}"
    using assms by auto
  finally show ?thesis .
qed

lemma kv_at_unpaged:
  "kv_at f t p mem None bs rs base pos c
     = (if Is_even_K f \<or> int c < params_d p then mem (base + pos * rs + int c) else 0)"
proof -
  have "pos div int (kBlockN t) * int (kBlockN t) * rs + pos mod int (kBlockN t) * rs = pos * rs"
    by (simp add: distrib_right [symmetric])
  then show ?thesis
    by (simp add: kv_at_def tile_ptr_def algebra_simps)
qed

text \<open>The weight of a logit of the kernel is the reference weight.\<close>

lemma exp_weight_logit:
  assumes "scale \<noteq> 0" and "alibi_slope mk = slope / scale" and "\<not> Has_alibi f \<Longrightarrow> slope = 0"
    and "(\<Sum>c<kHeadDim t. qr' c * kk' pos c) = (\<Sum>c<nd. qr c * kk pos c)"
    and "max_seqlen_k mk = max_seqlen_k mk'" "max_seqlen_q mk = max_seqlen_q mk'"
    and "mask_window_size_left mk = mask_window_size_left mk'"
    and "mask_window_size_right mk = mask_window_size_right mk'"
  shows "exp_weight scale (logit f t mk qr' kk' row pos)
         = ref_weight f mk' scale slope nd qr kk row pos"
proof -
  have "masked_out (Is_causal f) (Is_local f) False mk row pos
        = masked_out (Is_causal f) (Is_local f) False mk' row pos"
    using assms(5-8) by (simp add: masked_out_def)
  then show ?thesis
    using assms(1-6)
    by (simp add: logit_def ref_weight_def exp_weight_def alibi_bias_def algebra_simps)
qed

lemma sum_sets_eq:
  fixes g :: "int \<Rightarrow> real"
  assumes "finite A" and "finite B"
    and "\<And>x. x \<in> A \<Longrightarrow> x \<notin> B \<Longrightarrow> g x = 0"
    and "\<And>x. x \<in> B \<Longrightarrow> x \<notin> A \<Longrightarrow> g x = 0"
  shows "sum g A = sum g B"
proof -
  have "sum g A = sum g (A \<inter> B)"
    using assms(1,3) by (intro sum.mono_neutral_right) auto
  also have "\<dots> = sum g B"
    using assms(2,4) by (intro sum.mono_neutral_left) auto
  finally show ?thesis .
qed

lemma max0_sdiv_div:
  assumes "0 < (c::int)"
  shows "max 0 (a sdiv c) = max 0 (a div c)"
  by (simp only: max0_sdiv_floor [OF assms] floor_divide_of_int_eq)

text \<open>The tile range of the dense kernel contains every key that the masks leave to a
  row of the query tile.\<close>

lemma dense_range_covers:
  assumes Bc: "0 < kBlockN t" and i: "i < kBlockM t"
    and causal: "Is_causal f \<Longrightarrow> window_size_right p = 0"
    and pos: "0 \<le> pos"
    and un: "\<not> masked_out (Is_causal f) (Is_local f) False (make_mask p binfo s)
               (m_block * int (kBlockM t) + int i) pos"
  shows "n_block_min_dense f t p binfo m_block * int (kBlockN t) \<le> pos"
    and "pos < n_block_max_dense f t p binfo m_block * int (kBlockN t)"
proof -
  let ?B = "int (kBlockN t)"
  let ?sk = "actual_seqlen_k binfo" and ?sq = "actual_seqlen_q binfo"
  let ?row = "m_block * int (kBlockM t) + int i"
  from Bc have B: "0 < ?B" by simp
  from un have k: "pos < ?sk"
    and c: "Is_causal f \<Longrightarrow> pos \<le> ?row + ?sk - ?sq"
    and l: "Is_local f \<Longrightarrow> ?row + ?sk - ?sq - window_size_left p \<le> pos
              \<and> pos \<le> ?row + ?sk - ?sq + window_size_right p"
    by (auto simp: masked_out_def make_mask_def)
  show "n_block_min_dense f t p binfo m_block * ?B \<le> pos"
  proof (cases "Is_local f")
    case False
    with pos show ?thesis by (simp add: n_block_min_dense_def)
  next
    case True
    let ?Y = "m_block * int (kBlockM t) + ?sk - ?sq - window_size_left p"
    have "max 0 (?Y sdiv ?B) = max 0 (?Y div ?B)"
      using B by (rule max0_sdiv_div)
    moreover have "?Y div ?B * ?B \<le> ?Y"
    proof -
      have "?Y = ?Y div ?B * ?B + ?Y mod ?B" by simp
      moreover have "0 \<le> ?Y mod ?B" using B by simp
      ultimately show ?thesis by linarith
    qed
    moreover from l [OF True] have "?Y \<le> pos" by simp
    ultimately show ?thesis
      using True pos B by (auto simp: n_block_min_dense_def max_def)
  qed
  have c1: "pos < ceil_div ?sk ?B * ?B"
    using ceil_div_mult_ge [OF B, of ?sk] k by simp
  show "pos < n_block_max_dense f t p binfo m_block * ?B"
  proof (cases "Is_causal f \<or> Is_local f")
    case False
    with c1 show ?thesis by (simp add: n_block_max_dense_def)
  next
    case True
    let ?X = "(m_block + 1) * int (kBlockM t) + ?sk - ?sq + window_size_right p"
    from True c l causal i have "pos < ?X"
      by (auto simp: algebra_simps)
    with ceil_div_mult_ge [OF B, of ?X] have "pos < ceil_div ?X ?B * ?B" by simp
    with c1 True show ?thesis
      by (auto simp: n_block_max_dense_def Let_def min_def)
  qed
qed

lemma n_block_min_dense_nonneg: "0 \<le> n_block_min_dense f t p binfo m_block"
  by (simp add: n_block_min_dense_def)

lemma n_block_max_dense_top:
  assumes "0 < kBlockN t" and "0 < n_block_max_dense f t p binfo m_block"
  shows "(n_block_max_dense f t p binfo m_block - 1) * int (kBlockN t) < actual_seqlen_k binfo"
proof -
  let ?B = "int (kBlockN t)"
  have "n_block_max_dense f t p binfo m_block \<le> ceil_div (actual_seqlen_k binfo) ?B"
    by (simp add: n_block_max_dense_def Let_def)
  then have "n_block_max_dense f t p binfo m_block * ?B < actual_seqlen_k binfo + ?B"
    using assms by (intro ceil_div_clamp(2)) simp_all
  then show ?thesis by (simp add: algebra_simps)
qed

lemma n_block_max_dense_clamp:
  assumes "0 < kBlockN t" and "0 < n_block_max_dense f t p binfo m_block"
    and "Is_causal f" and "window_size_right p = 0"
  shows "n_block_max_dense f t p binfo m_block * int (kBlockN t)
           < (m_block + 1) * int (kBlockM t) + actual_seqlen_k binfo - actual_seqlen_q binfo
             + int (kBlockN t)"
proof -
  have "n_block_max_dense f t p binfo m_block
      \<le> ceil_div ((m_block + 1) * int (kBlockM t) + actual_seqlen_k binfo
                    - actual_seqlen_q binfo) (int (kBlockN t))"
    using assms(3,4) by (simp add: n_block_max_dense_def Let_def)
  then show ?thesis
    using assms(1,2) by (intro ceil_div_clamp(2)) simp_all
qed

text \<open>What the dense kernel writes for a row of the query tile below \<open>actual_seqlen_q\<close>,
  when the tile range is not empty.\<close>

lemma dense_row:
  fixes f :: flags and t :: traits and p :: params and binfo :: block_info and mem :: gmemory
    and bidb bidh m_block :: int and i :: nat and sm0 seed_offset blockIdx rng apply_dropout
  defines "w \<equiv> dense_weight f t p binfo mem bidb bidh m_block i"
  defines "W \<equiv> \<Sum>pos\<in>{0..<actual_seqlen_k binfo}. w pos"
  defines "out \<equiv> compute_attn_1rowblock f t p binfo mem sm0 seed_offset blockIdx rng
                    apply_dropout bidb bidh m_block"
  assumes Br: "0 < kBlockM t" and Bc: "0 < kBlockN t"
    and shape: "kBlockN t dvd kBlockM t \<or> kBlockM t dvd kBlockN t"
    and d: "0 \<le> params_d p" "params_d p \<le> int (kHeadDim t)"
      "Is_even_K f \<Longrightarrow> params_d p = int (kHeadDim t)"
    and scale: "0 < scale_softmax p" "scale_softmax_log2 p = scale_softmax p / ln 2"
    and nodrop: "\<not> Is_dropout f"
    and even: "Is_even_MN f \<Longrightarrow> int (kBlockN t) dvd actual_seqlen_k binfo
                 \<and> int (kBlockM t) dvd actual_seqlen_q binfo"
    and causal: "Is_causal f \<Longrightarrow> \<not> Is_local f \<and> window_size_right p = 0"
    and i: "i < kBlockM t" "m_block * int (kBlockM t) + int i < actual_seqlen_q binfo"
    and range: "n_block_min_dense f t p binfo m_block < n_block_max_dense f t p binfo m_block"
  shows "out_LSE out i = Some (if W = 0 then PInf else Fin (ln W))"
    and "int c < params_d p \<Longrightarrow> out_O out i c
           = Some (if W = 0 then Fin 0
                   else Fin ((\<Sum>pos\<in>{0..<actual_seqlen_k binfo}.
                                w pos * v_at t p binfo mem bidb bidh pos c) / W))"
proof -
  let ?B = "int (kBlockN t)"
  let ?sk = "actual_seqlen_k binfo" and ?sq = "actual_seqlen_q binfo"
  let ?row = "m_block * int (kBlockM t) + int i"
  let ?nmin = "n_block_min_dense f t p binfo m_block"
  let ?nmax = "n_block_max_dense f t p binfo m_block"
  let ?J = "{?nmin * ?B..<?nmax * ?B}"
  define mk where "mk = make_mask p binfo (alibi_slope_dense f p mem bidb bidh)"
  define memd where "memd = mem\<lparr>block_table := None\<rparr>"
  define max_M where "max_M = ?sq - m_block * int (kBlockM t)"
  define sQ where "sQ = copy_g2s (Is_even_MN f) (Is_even_K f) False (params_d p) (q_mem mem)
                          (row_offset_q t p binfo bidb bidh m_block) (q_row_stride p) max_M
                          (smem_Q sm0)"
  define kbase where "kbase = row_offset_k t p binfo bidb bidh 1"
  define vbase where "vbase = row_offset_v t p binfo bidb bidh 1"
  define st0 where "st0 = \<lparr>st_tKgK = row_offset_k t p binfo bidb bidh ?nmax,
       st_tVgV = row_offset_v t p binfo bidb bidh ?nmax,
       st_sK = copy_g2s (Is_even_MN f) (Is_even_K f) False (params_d p) (k_mem mem)
                 (row_offset_k t p binfo bidb bidh ?nmax) (k_row_stride p)
                 (?sk - (?nmax - 1) * ?B) (smem_K sm0),
       st_sV = smem_V sm0, st_acc_o = (\<lambda>r c. Fin 0),
       st_softmax = \<lparr>row_max = (\<lambda>r. MInf), row_sum = (\<lambda>r. Fin 0)\<rparr>\<rparr>"
  define ml where "ml = masking_loop
       (masking_body f t p binfo memd mk (Is_causal f \<or> Is_local f) (\<lambda>n rP. rP) sQ m_block ?nmin)
       (n_masking_steps f t) ?nmin 0 (?nmax - 1) st0"
  define st2 where "st2 = snd (main_loop (main_body f t p memd mk (\<lambda>n rP. rP) sQ m_block ?nmin)
       ?nmin (fst ml) (snd ml))"
  define nz where "nz = normalize_softmax_lse False False (st_softmax st2) (st_acc_o st2)
       (scale_softmax p) (rp_dropout p)"
  define qr where "qr = (\<lambda>c. if Is_even_K f \<or> int c < params_d p
       then q_row_of t p binfo mem bidb bidh m_block i c else 0)"
  define kk where "kk = kv_at f t p (k_mem memd) (block_table memd) (k_batch_stride p)
       (k_row_stride p) kbase"
  define vv where "vv = kv_at f t p (v_mem memd) (block_table memd) (v_batch_stride p)
       (v_row_stride p) vbase"
  define sc where "sc = logit f t mk qr kk ?row"
  from i have mb: "m_block * int (kBlockM t) < ?sq" and iM: "int i < max_M"
    by (simp_all add: max_M_def)
  have outL: "out_LSE out = store_rows t max_M (fst nz)"
    and outO: "out_O out = store_tile (Is_even_MN f) (Is_even_K f) t (params_d p) max_M (snd nz)"
    using mb range nodrop
    by (simp_all add: out_def compute_attn_1rowblock_def Let_def split_def nz_def st2_def
        ml_def st0_def sQ_def mk_def memd_def max_M_def)
  have kp: "row_offset_k t p binfo bidb bidh n
      = tile_ptr (block_table memd) t p (k_batch_stride p) (k_row_stride p) kbase (n - 1)"
    and vp: "row_offset_v t p binfo bidb bidh n
      = tile_ptr (block_table memd) t p (v_batch_stride p) (v_row_stride p) vbase (n - 1)" for n
    by (simp_all add: memd_def tile_ptr_def kbase_def vbase_def row_offset_k_def
        row_offset_v_def algebra_simps)
  have q: "sQ i c = Fin (qr c)" for c
    using iM by (simp add: sQ_def copy_g2s_def qr_def q_row_of_def)
  have mkl: "max_seqlen_k mk = ?sk" "max_seqlen_q mk = ?sq"
    by (simp_all add: mk_def make_mask_def)
  have ri: "row_inv (scale_softmax_log2 p) sc vv ?J
              (row_max (st_softmax st2) i) (row_sum (st_softmax st2) i) (st_acc_o st2 i)"
    unfolding sc_def kk_def vv_def st2_def ml_def
  proof (rule attn_loops_row [where binfo = binfo])
    show "0 < scale_softmax_log2 p" using scale by simp
    have npos: "0 < ?nmax"
      using range n_block_min_dense_nonneg [of f t p binfo m_block] by simp
    show "(?nmax - 1) * ?B < ?sk" using Bc npos by (rule n_block_max_dense_top)
    show "?nmax * ?B < (m_block + 1) * int (kBlockM t) + ?sk - ?sq + ?B" if "Is_causal f"
      using Bc npos that causal by (intro n_block_max_dense_clamp) simp_all
    show "st_sK st0 r c = Fin (kv_at f t p (k_mem memd) (block_table memd) (k_batch_stride p)
            (k_row_stride p) kbase ((?nmax - 1) * ?B + int r) c)"
      if "r < kBlockN t" "(?nmax - 1) * ?B + int r < ?sk" for r c
      using that by (simp add: st0_def copy_g2s_def kv_at_tile kp memd_def)
  qed (use Br Bc range even shape causal mkl q in \<open>simp_all add: st0_def kp vp\<close>)
  have fJ: "finite ?J" by simp
  have score: "is_score (sc j)" for j
    by (simp add: sc_def logit_score)
  have nr: "fst nz i
        = (if (\<Sum>j\<in>?J. exp_weight (scale_softmax p) (sc j)) = 0 then PInf
           else Fin (ln (\<Sum>j\<in>?J. exp_weight (scale_softmax p) (sc j))))"
      "snd nz i c
        = (if (\<Sum>j\<in>?J. exp_weight (scale_softmax p) (sc j)) = 0 then Fin 0
           else Fin ((\<Sum>j\<in>?J. exp_weight (scale_softmax p) (sc j) * vv j c)
                       / (\<Sum>j\<in>?J. exp_weight (scale_softmax p) (sc j))))" for c
    using normalize_row [where sc = sc and J = ?J and split = False and sm = "st_softmax st2"
        and acc_o = "st_acc_o st2" and i = i and v = vv, OF ri fJ scale(2) score]
    by (simp_all add: nz_def)
  have ew: "exp_weight (scale_softmax p) (sc pos) = w pos" for pos
    unfolding sc_def w_def dense_weight_def
  proof (rule exp_weight_logit)
    show "alibi_slope mk = alibi_slope_of f p mem bidb bidh / scale_softmax p"
      by (simp add: mk_def make_mask_def alibi_slope_dense_def alibi_slope_of_def
          split: option.splits)
    show "\<not> Has_alibi f \<Longrightarrow> alibi_slope_of f p mem bidb bidh = 0"
      by (simp add: alibi_slope_of_def split: option.splits)
    show "(\<Sum>c<kHeadDim t. qr c * kk pos c)
        = (\<Sum>c<nat (params_d p). q_row_of t p binfo mem bidb bidh m_block i c
             * k_at t p binfo mem bidb bidh pos c)"
    proof -
      have "kk pos c = (if Is_even_K f \<or> int c < params_d p
                        then k_at t p binfo mem bidb bidh pos c else 0)" for c
        by (simp add: kk_def memd_def kv_at_unpaged k_at_def kbase_def)
      then show ?thesis
        unfolding qr_def by (simp only: sum_zero_fill [OF d])
    qed
  qed (use scale in \<open>simp_all add: mk_def make_mask_def\<close>)
  have wm: "w pos = 0"
    if "masked_out (Is_causal f) (Is_local f) False (make_mask p binfo 0) ?row pos" for pos
    using that by (simp add: w_def dense_weight_def ref_weight_def)
  have out0: "w x = 0" if "x \<in> ?J" "x \<notin> {0..<?sk}" for x
  proof -
    have "0 \<le> ?nmin * ?B"
      using n_block_min_dense_nonneg [of f t p binfo m_block] by (intro mult_nonneg_nonneg) simp_all
    with that have "?sk \<le> x" by auto
    then show ?thesis
      by (intro wm) (simp add: masked_out_def make_mask_def)
  qed
  have in0: "w x = 0" if "x \<in> {0..<?sk}" "x \<notin> ?J" for x
  proof (rule wm, rule ccontr)
    assume "\<not> masked_out (Is_causal f) (Is_local f) False (make_mask p binfo 0) ?row x"
    with dense_range_covers [OF Bc i(1), of f p x binfo 0 m_block] causal that
    show False by auto
  qed
  have Ws: "(\<Sum>j\<in>?J. exp_weight (scale_softmax p) (sc j)) = W"
    unfolding W_def ew by (rule sum_sets_eq) (simp_all add: out0 in0)
  show "out_LSE out i = Some (if W = 0 then PInf else Fin (ln W))"
    using nr(1) i(1) iM by (simp add: outL store_rows_def Ws)
  show "out_O out i c
           = Some (if W = 0 then Fin 0
                   else Fin ((\<Sum>pos\<in>{0..<?sk}. w pos * v_at t p binfo mem bidb bidh pos c) / W))"
    if c: "int c < params_d p"
  proof -
    have vvc: "vv pos c = v_at t p binfo mem bidb bidh pos c" for pos
      using c by (simp add: vv_def memd_def kv_at_unpaged v_at_def vbase_def)
    have "(\<Sum>j\<in>?J. exp_weight (scale_softmax p) (sc j) * vv j c)
        = (\<Sum>pos\<in>{0..<?sk}. w pos * v_at t p binfo mem bidb bidh pos c)"
      unfolding ew vvc by (rule sum_sets_eq) (simp_all add: out0 in0)
    moreover from c d have "c < kHeadDim t" by simp
    ultimately show ?thesis
      using nr(2) [of c] i(1) iM c
      by (simp add: outO store_tile_def Ws)
  qed
qed

lemma dense_weight_nonneg: "0 \<le> dense_weight f t p binfo mem bidb bidh m_block i pos"
  by (simp add: dense_weight_def ref_weight_def)

lemma dense_weight_sum_pos:
  assumes "\<exists>pos\<in>{0..<actual_seqlen_k binfo}.
             \<not> masked_out (Is_causal f) (Is_local f) False (make_mask p binfo 0)
                 (m_block * int (kBlockM t) + int i) pos"
  shows "0 < (\<Sum>pos\<in>{0..<actual_seqlen_k binfo}.
                dense_weight f t p binfo mem bidb bidh m_block i pos)"
proof -
  from assms obtain pos where pos: "pos \<in> {0..<actual_seqlen_k binfo}"
    and um: "\<not> masked_out (Is_causal f) (Is_local f) False (make_mask p binfo 0)
                 (m_block * int (kBlockM t) + int i) pos"
    by blast
  from um have "0 < dense_weight f t p binfo mem bidb bidh m_block i pos"
    by (simp add: dense_weight_def ref_weight_def)
  then show ?thesis
    using pos by (intro sum_pos2 [where i = pos]) (simp_all add: dense_weight_nonneg)
qed

lemma dense_range_nonempty:
  assumes "0 < kBlockN t" and "i < kBlockM t"
    and "Is_causal f \<Longrightarrow> window_size_right p = 0"
    and "\<exists>pos\<in>{0..<actual_seqlen_k binfo}.
             \<not> masked_out (Is_causal f) (Is_local f) False (make_mask p binfo 0)
                 (m_block * int (kBlockM t) + int i) pos"
  shows "n_block_min_dense f t p binfo m_block < n_block_max_dense f t p binfo m_block"
proof -
  from assms(4) obtain pos where pos: "0 \<le> pos"
    and um: "\<not> masked_out (Is_causal f) (Is_local f) False (make_mask p binfo 0)
                 (m_block * int (kBlockM t) + int i) pos"
    by auto
  from dense_range_covers [OF assms(1,2,3) pos um]
  have "n_block_min_dense f t p binfo m_block * int (kBlockN t)
      < n_block_max_dense f t p binfo m_block * int (kBlockN t)"
    by simp
  with assms(1) show ?thesis
    by (simp add: mult_less_cancel_right)
qed

text \<open>
  C1. Without dropout, for every mask mode (none, causal, local), with or without ALiBi,
  the dense kernel writes for every row \<open>i\<close> of its query tile below \<open>actual_seqlen_q\<close>
  that has an unmasked key, and every column below the head dimension, the reference
  output: the mean of the value rows weighted by
  \<open>exp (scale * (q . k) + alibi)\<close> over the unmasked keys, in exact arithmetic.
\<close>

theorem dense_output_reference:
  fixes f :: flags and t :: traits and p :: params and binfo :: block_info and mem :: gmemory
    and bidb bidh m_block :: int and i c :: nat
  assumes "0 < kBlockM t" and "0 < kBlockN t"
    and "kBlockN t dvd kBlockM t \<or> kBlockM t dvd kBlockN t"
    and "0 \<le> params_d p" and "params_d p \<le> int (kHeadDim t)"
    and "Is_even_K f \<Longrightarrow> params_d p = int (kHeadDim t)"
    and "0 < scale_softmax p" and "scale_softmax_log2 p = scale_softmax p / ln 2"
    and "\<not> Is_dropout f"
    and "Is_even_MN f \<Longrightarrow> int (kBlockN t) dvd actual_seqlen_k binfo
                 \<and> int (kBlockM t) dvd actual_seqlen_q binfo"
    and "Is_causal f \<Longrightarrow> \<not> Is_local f \<and> window_size_right p = 0"
    and "i < kBlockM t" and "m_block * int (kBlockM t) + int i < actual_seqlen_q binfo"
    and "int c < params_d p"
    and "\<exists>pos\<in>{0..<actual_seqlen_k binfo}.
             \<not> masked_out (Is_causal f) (Is_local f) False (make_mask p binfo 0)
                 (m_block * int (kBlockM t) + int i) pos"
  shows "out_O (compute_attn_1rowblock f t p binfo mem sm0 seed_offset blockIdx rng
                  apply_dropout bidb bidh m_block) i c
         = Some (Fin (ref_O (dense_weight f t p binfo mem bidb bidh m_block i)
                        (v_at t p binfo mem bidb bidh) {0..<actual_seqlen_k binfo} c))"
proof -
  have r: "n_block_min_dense f t p binfo m_block < n_block_max_dense f t p binfo m_block"
    using assms(2,12,11,15) by (intro dense_range_nonempty) simp_all
  have W: "(\<Sum>pos\<in>{0..<actual_seqlen_k binfo}.
              dense_weight f t p binfo mem bidb bidh m_block i pos) \<noteq> 0"
    using dense_weight_sum_pos [OF assms(15), of mem bidb bidh] by simp
  show ?thesis
    using dense_row(2) [OF assms(1-13) r assms(14), of mem sm0 seed_offset blockIdx rng
        apply_dropout bidb bidh] W
    by (simp add: ref_O_def)
qed

theorem dense_output_reference_witness:
  "out_O (compute_attn_1rowblock ex_flags_causal ex_traits ex_params ex_binfo ex_mem ex_smem
            (7, 11) (0, 0, 0) None (\<lambda>m n rP. rP) 0 0 3) 0 0
   = Some (Fin (ref_O (dense_weight ex_flags_causal ex_traits ex_params ex_binfo ex_mem 0 0 3 0)
                  (v_at ex_traits ex_params ex_binfo ex_mem 0 0) {0..<actual_seqlen_k ex_binfo}
                  0))"
proof (rule dense_output_reference)
  show "\<exists>pos\<in>{0..<actual_seqlen_k ex_binfo}.
          \<not> masked_out (Is_causal ex_flags_causal) (Is_local ex_flags_causal) False
              (make_mask ex_params ex_binfo 0) (3 * int (kBlockM ex_traits) + int 0) pos"
    by (rule bexI [where x = 0])
       (simp_all add: masked_out_def make_mask_def ex_flags_causal_def ex_traits_def
          ex_params_def ex_binfo_def)
qed (simp_all add: ex_flags_causal_def ex_traits_def ex_params_def ex_binfo_def)

text \<open>
  C3. For every row \<open>i\<close> of the query tile below \<open>actual_seqlen_q\<close> that has an unmasked
  key, the log-sum-exp that the dense kernel writes is the logarithm of the sum of
  \<open>exp (scale * (q . k) + alibi)\<close> over the unmasked keys, in exact arithmetic.
\<close>

theorem dense_lse_reference:
  fixes f :: flags and t :: traits and p :: params and binfo :: block_info and mem :: gmemory
    and bidb bidh m_block :: int and i :: nat
  assumes "0 < kBlockM t" and "0 < kBlockN t"
    and "kBlockN t dvd kBlockM t \<or> kBlockM t dvd kBlockN t"
    and "0 \<le> params_d p" and "params_d p \<le> int (kHeadDim t)"
    and "Is_even_K f \<Longrightarrow> params_d p = int (kHeadDim t)"
    and "0 < scale_softmax p" and "scale_softmax_log2 p = scale_softmax p / ln 2"
    and "\<not> Is_dropout f"
    and "Is_even_MN f \<Longrightarrow> int (kBlockN t) dvd actual_seqlen_k binfo
                 \<and> int (kBlockM t) dvd actual_seqlen_q binfo"
    and "Is_causal f \<Longrightarrow> \<not> Is_local f \<and> window_size_right p = 0"
    and "i < kBlockM t" and "m_block * int (kBlockM t) + int i < actual_seqlen_q binfo"
    and "\<exists>pos\<in>{0..<actual_seqlen_k binfo}.
             \<not> masked_out (Is_causal f) (Is_local f) False (make_mask p binfo 0)
                 (m_block * int (kBlockM t) + int i) pos"
  shows "out_LSE (compute_attn_1rowblock f t p binfo mem sm0 seed_offset blockIdx rng
                    apply_dropout bidb bidh m_block) i
         = Some (Fin (ref_LSE (dense_weight f t p binfo mem bidb bidh m_block i)
                        {0..<actual_seqlen_k binfo}))"
proof -
  have r: "n_block_min_dense f t p binfo m_block < n_block_max_dense f t p binfo m_block"
    using assms(2,12,11,14) by (intro dense_range_nonempty) simp_all
  have W: "(\<Sum>pos\<in>{0..<actual_seqlen_k binfo}.
              dense_weight f t p binfo mem bidb bidh m_block i pos) \<noteq> 0"
    using dense_weight_sum_pos [OF assms(14), of mem bidb bidh] by simp
  show ?thesis
    using dense_row(1) [OF assms(1-13) r, of mem sm0 seed_offset blockIdx rng
        apply_dropout bidb bidh] W
    by (simp add: ref_LSE_def)
qed

theorem dense_lse_reference_witness:
  "out_LSE (compute_attn_1rowblock ex_flags_causal ex_traits ex_params ex_binfo ex_mem ex_smem
            (7, 11) (0, 0, 0) None (\<lambda>m n rP. rP) 0 0 3) 5
   = Some (Fin (ref_LSE (dense_weight ex_flags_causal ex_traits ex_params ex_binfo ex_mem 0 0 3 5)
                  {0..<actual_seqlen_k ex_binfo}))"
proof (rule dense_lse_reference)
  show "\<exists>pos\<in>{0..<actual_seqlen_k ex_binfo}.
          \<not> masked_out (Is_causal ex_flags_causal) (Is_local ex_flags_causal) False
              (make_mask ex_params ex_binfo 0) (3 * int (kBlockM ex_traits) + int 5) pos"
    by (rule bexI [where x = 3])
       (simp_all add: masked_out_def make_mask_def ex_flags_causal_def ex_traits_def
          ex_params_def ex_binfo_def)
qed (simp_all add: ex_flags_causal_def ex_traits_def ex_params_def ex_binfo_def)

subsection \<open>The reduction kernel\<close>

lemma score_le_score: "score_le x M \<Longrightarrow> is_score x"
  by (cases x) (simp_all add: score_le_def is_score_def)

lemma fl_max_le: "score_le x M \<Longrightarrow> score_le y M \<Longrightarrow> score_le (fl_max x y) M"
  by (cases x; cases y) (simp_all add: score_le_def)

lemma fl_maxs_le:
  assumes "score_le m M" and "\<And>j. j < n \<Longrightarrow> score_le (xs j) M"
  shows "score_le (fl_maxs m n xs) M"
  using assms by (induction n) (simp_all add: fl_max_le)

lemma fl_max_Fin_left: "score_le y M \<Longrightarrow> fl_max (Fin M) y = Fin M"
  by (cases y) (simp_all add: score_le_def)

lemma fl_max_Fin_right: "score_le x M \<Longrightarrow> fl_max x (Fin M) = Fin M"
  by (cases x) (simp_all add: score_le_def)

lemma fl_maxs_Fin:
  assumes "score_le m M" and "\<And>j. j < n \<Longrightarrow> score_le (xs j) M"
    and "m = Fin M \<or> (\<exists>j<n. xs j = Fin M)"
  shows "fl_maxs m n xs = Fin M"
  using assms
proof (induction n)
  case 0
  then show ?case by simp
next
  case (Suc n)
  show ?case
  proof (cases "m = Fin M \<or> (\<exists>j<n. xs j = Fin M)")
    case True
    with Suc have "fl_maxs m n xs = Fin M" by simp
    with Suc.prems(2) [of n] show ?thesis by (simp add: fl_max_Fin_left)
  next
    case False
    with Suc.prems(3) have "xs n = Fin M" by (auto simp: less_Suc_eq)
    moreover have "score_le (fl_maxs m n xs) M"
      using Suc.prems(1,2) by (intro fl_maxs_le) simp_all
    ultimately show ?thesis by (simp add: fl_max_Fin_right)
  qed
qed

lemma fl_maxs_MInf:
  assumes "m = MInf" and "\<And>j. j < n \<Longrightarrow> xs j = MInf"
  shows "fl_maxs m n xs = MInf"
  using assms by (induction n) simp_all

lemma sum_head:
  fixes g :: "nat \<Rightarrow> real"
  assumes "0 < n"
  shows "g 0 + (\<Sum>j<n - 1. g (j + 1)) = (\<Sum>j<n. g j)"
proof -
  from assms obtain n' where n: "n = Suc n'" by (cases n) simp_all
  show ?thesis
    unfolding n using sum.lessThan_Suc_shift [of g n'] by (simp del: sum.lessThan_Suc)
qed

lemma sum_grid:
  fixes g :: "nat \<Rightarrow> real"
  shows "(\<Sum>j<n. \<Sum>l<k. g (l * n + j)) = (\<Sum>s<k * n. g s)"
proof -
  have "(\<Sum>j<n. \<Sum>l<k. g (l * n + j)) = (\<Sum>l<k. \<Sum>j<n. g (l * n + j))"
    by (rule sum.swap)
  also have "\<dots> = (\<Sum>l<k. sum g {l * n..<l * n + n})"
  proof (rule sum.cong [OF refl])
    fix l
    have "sum g {l * n..<l * n + n} = (\<Sum>j\<in>{0..<n}. g (j + l * n))"
      using sum.shift_bounds_nat_ivl [of g 0 "l * n" n] by (simp add: add.commute)
    then show "(\<Sum>j<n. g (l * n + j)) = sum g {l * n..<l * n + n}"
      by (simp add: atLeast0LessThan add.commute)
  qed
  also have "\<dots> = (\<Sum>s<k * n. g s)"
    by (rule sum.nat_group)
  finally show ?thesis .
qed

text \<open>A loop of guarded stores into a two-dimensional array, each store with a value that
  is a function of the cell it goes to.\<close>

lemma fold_stores:
  assumes "\<And>x. x \<in> set xs \<Longrightarrow> g x \<Longrightarrow> val x = V (row x) (col x)"
  shows "fold (\<lambda>x s. if g x then s(row x := (s (row x))(col x := val x)) else s) xs s0 a b
         = (if \<exists>x\<in>set xs. g x \<and> row x = a \<and> col x = b then V a b else s0 a b)"
  using assms
proof (induction xs arbitrary: s0)
  case Nil
  then show ?case by simp
next
  case (Cons x xs)
  have ih: "fold (\<lambda>x s. if g x then s(row x := (s (row x))(col x := val x)) else s) xs s1 a b
         = (if \<exists>x\<in>set xs. g x \<and> row x = a \<and> col x = b then V a b else s1 a b)" for s1
    using Cons.prems by (intro Cons.IH) simp
  from Cons.prems [of x] have x: "g x \<Longrightarrow> val x = V (row x) (col x)" by simp
  show ?case
    using x by (auto simp: ih)
qed

lemma combine_static:
  assumes "cb_kBlockM ct \<in> {4, 8, 16, 32}" and "cb_kNThreads ct = 128"
    and "cb_Log_max_splits ct \<le> 7"
  shows "0 < kRowsPerLoadTranspose ct"
    and "kNLsePerThread ct * kRowsPerLoadTranspose ct = kMaxSplits ct"
    and "cb_kBlockM ct * kRowsPerLoadTranspose ct \<le> 128"
    and "kRowsPerLoadLSE ct * cb_kBlockM ct = 128"
    and "kMaxSplits ct \<le> kNLsePerThread ct * kRowsPerLoadLSE ct"
    and "0 < kRowsPerLoadLSE ct"
proof -
  from assms(3) have "cb_Log_max_splits ct \<in> {0, 1, 2, 3, 4, 5, 6, 7}" by auto
  with assms(1,2) show "0 < kRowsPerLoadTranspose ct"
    and "kNLsePerThread ct * kRowsPerLoadTranspose ct = kMaxSplits ct"
    and "cb_kBlockM ct * kRowsPerLoadTranspose ct \<le> 128"
    and "kRowsPerLoadLSE ct * cb_kBlockM ct = 128"
    and "kMaxSplits ct \<le> kNLsePerThread ct * kRowsPerLoadLSE ct"
    and "0 < kRowsPerLoadLSE ct"
    by (auto simp: kRowsPerLoadTranspose_def kNLsePerThread_def kRowsPerLoadLSE_def
        kMaxSplits_def)
qed

lemma load_sLSE_cell:
  assumes st: "cb_kBlockM ct \<in> {4, 8, 16, 32}" "cb_kNThreads ct = 128"
      "cb_Log_max_splits ct \<le> 7"
    and row: "row < kMaxSplits ct" and col: "col < cb_kBlockM ct"
  shows "load_sLSE ct p lseaccum bidx sLSE0 row col
         = (if int row < num_splits p \<and> int col < total_rows p - bidx * int (cb_kBlockM ct)
            then lseaccum (bidx * int (cb_kBlockM ct) + int row * total_rows p + int col)
            else MInf)"
proof -
  let ?R = "kRowsPerLoadLSE ct" and ?B = "cb_kBlockM ct"
  let ?V = "\<lambda>row col. if int row < num_splits p \<and> int col < total_rows p - bidx * int ?B
            then lseaccum (bidx * int ?B + int row * total_rows p + int col) else MInf"
  let ?row = "\<lambda>x. snd x * ?R + fst x div ?B" and ?col = "\<lambda>x::nat \<times> nat. fst x mod ?B"
  let ?xs = "List.product [0..<cb_kNThreads ct] [0..<kNLsePerThread ct]"
  note cs = combine_static [OF st]
  from col have B: "0 < ?B" by simp
  have eq: "load_sLSE ct p lseaccum bidx sLSE0
      = fold (\<lambda>x s. if ?row x < kMaxSplits ct
                      then s(?row x := (s (?row x))(?col x := ?V (?row x) (?col x))) else s)
          ?xs sLSE0"
    unfolding load_sLSE_def by (rule arg_cong [where f = "\<lambda>f. fold f ?xs sLSE0"])
      (simp add: fun_eq_iff Let_def split_def)
  have ex: "\<exists>x\<in>set ?xs. ?row x < kMaxSplits ct \<and> ?row x = row \<and> ?col x = col"
  proof (rule bexI [where x = "(row mod ?R * ?B + col, row div ?R)"])
    have "row mod ?R * ?B + col < ?R * ?B"
    proof -
      have "row mod ?R + 1 \<le> ?R" using cs(6) by (simp add: Suc_leI)
      then have "(row mod ?R + 1) * ?B \<le> ?R * ?B" by (rule mult_le_mono1)
      with col show ?thesis by simp
    qed
    moreover have "row div ?R < kNLsePerThread ct"
      using row cs(5,6) by (simp add: div_less_iff_less_mult mult.commute)
    ultimately show "(row mod ?R * ?B + col, row div ?R) \<in> set ?xs"
      using cs(4) st(2) by simp
    show "?row (row mod ?R * ?B + col, row div ?R) < kMaxSplits ct
        \<and> ?row (row mod ?R * ?B + col, row div ?R) = row
        \<and> ?col (row mod ?R * ?B + col, row div ?R) = col"
      using row col B by simp
  qed
  show ?thesis
    unfolding eq
    using ex by (subst fold_stores [where V = ?V]) simp_all
qed

lemma lse_accum_cell:
  assumes "r < cb_kBlockM ct" and "j < kRowsPerLoadTranspose ct"
    and "l < kNLsePerThread ct"
    and "kNLsePerThread ct * kRowsPerLoadTranspose ct = kMaxSplits ct"
  shows "lse_accum ct sLSE (r * kRowsPerLoadTranspose ct + j) l
         = sLSE (l * kRowsPerLoadTranspose ct + j) r"
proof -
  let ?n = "kRowsPerLoadTranspose ct"
  have "l * ?n + j < (l + 1) * ?n" using assms(2) by simp
  also have "\<dots> \<le> kNLsePerThread ct * ?n"
    using assms(3) by (intro mult_le_mono1) simp
  finally have "l * ?n + j < kMaxSplits ct" using assms(4) by simp
  then show ?thesis
    using assms(1,2) by (simp add: lse_accum_def Let_def)
qed

lemma grid_index:
  fixes s k n :: nat
  assumes "s < k * n"
  shows "s div n < k" and "s mod n < n" and "s div n * n + s mod n = s"
proof -
  from assms have n: "0 < n" by (cases n) simp_all
  from assms show "s div n < k" by (simp add: div_less_iff_less_mult n mult.commute)
  from n show "s mod n < n" by simp
  show "s div n * n + s mod n = s" by simp
qed

text \<open>The maximum, the sum and the log-sum-exp that the threads of row \<open>r\<close> hold, in terms
  of column \<open>r\<close> of \<open>sLSE\<close>.\<close>

lemma lse_max_of_cell:
  fixes ct :: combine_traits and sLSE :: "nat \<Rightarrow> nat \<Rightarrow> fl"
  defines "n \<equiv> kRowsPerLoadTranspose ct" and "k \<equiv> kNLsePerThread ct"
  assumes r: "r < cb_kBlockM ct" and j: "j < n" and kn: "k * n = kMaxSplits ct"
  shows "(\<And>s. s < kMaxSplits ct \<Longrightarrow> sLSE s r = MInf)
           \<Longrightarrow> lse_max_of ct sLSE (r * n + j) = Fin 0"
    and "s0 < kMaxSplits ct \<Longrightarrow> sLSE s0 r = Fin M
           \<Longrightarrow> (\<And>s. s < kMaxSplits ct \<Longrightarrow> score_le (sLSE s r) M)
           \<Longrightarrow> lse_max_of ct sLSE (r * n + j) = Fin M"
proof -
  let ?T = "\<lambda>tid. fl_maxs (lse_accum ct sLSE tid 0) (k - 1) (\<lambda>l. lse_accum ct sLSE tid (l + 1))"
  from j have n: "0 < n" by simp
  from kn n have k: "0 < k" by (cases k) (simp_all add: kMaxSplits_def)
  have base: "(r * n + j) div n * n = r * n" using j by simp
  have cell: "lse_accum ct sLSE (r * n + j') l = sLSE (l * n + j') r" if "j' < n" "l < k" for j' l
    using that r kn unfolding n_def k_def by (intro lse_accum_cell) simp_all
  have lt: "l * n + j' < kMaxSplits ct" if "j' < n" "l < k" for j' l
  proof -
    have "l * n + j' < (l + 1) * n" using that by simp
    also have "\<dots> \<le> k * n" using that by (intro mult_le_mono1) simp
    finally show ?thesis using kn by simp
  qed
  have am: "allreduce_max n ?T (r * n + j)
      = fl_maxs (?T (r * n + 0)) (n - 1) (\<lambda>j'. ?T (r * n + (j' + 1)))"
    by (simp add: allreduce_max_def base add.assoc)
  {
    assume all: "\<And>s. s < kMaxSplits ct \<Longrightarrow> sLSE s r = MInf"
    have cM: "lse_accum ct sLSE (r * n + j') l = MInf" if "j' < n" "l < k" for j' l
      using that all [OF lt [OF that]] by (simp only: cell)
    have T: "?T (r * n + j') = MInf" if "j' < n" for j'
      using that k by (intro fl_maxs_MInf cM) simp_all
    have "allreduce_max n ?T (r * n + j) = MInf"
      unfolding am using n by (intro fl_maxs_MInf T) simp_all
    then show "lse_max_of ct sLSE (r * n + j) = Fin 0"
      by (simp add: lse_max_of_def n_def k_def fl_eq_def)
  }
  {
    assume s0: "s0 < kMaxSplits ct" and M: "sLSE s0 r = Fin M"
      and le: "\<And>s. s < kMaxSplits ct \<Longrightarrow> score_le (sLSE s r) M"
    from s0 kn have s0': "s0 < k * n" by simp
    note g = grid_index [OF s0']
    have cle: "score_le (lse_accum ct sLSE (r * n + j') l) M" if "j' < n" "l < k" for j' l
      using that le [OF lt [OF that]] by (simp only: cell)
    have Tle: "score_le (?T (r * n + j')) M" if "j' < n" for j'
      using that k by (intro fl_maxs_le cle) simp_all
    have T0: "?T (r * n + s0 mod n) = Fin M"
    proof (rule fl_maxs_Fin)
      show "score_le (lse_accum ct sLSE (r * n + s0 mod n) 0) M"
        using k g(2) by (intro cle)
      show "score_le (lse_accum ct sLSE (r * n + s0 mod n) (l + 1)) M" if "l < k - 1" for l
        using that g(2) by (intro cle) simp_all
      show "lse_accum ct sLSE (r * n + s0 mod n) 0 = Fin M
          \<or> (\<exists>l<k - 1. lse_accum ct sLSE (r * n + s0 mod n) (l + 1) = Fin M)"
      proof (cases "s0 div n")
        case 0
        with g(3) M have "sLSE (0 * n + s0 mod n) r = Fin M" by simp
        then show ?thesis using k g(2) by (simp add: cell)
      next
        case (Suc l)
        with g(1) have l: "l < k - 1" by simp
        from Suc g(3) M have "sLSE ((l + 1) * n + s0 mod n) r = Fin M" by simp
        with l g(2) have "lse_accum ct sLSE (r * n + s0 mod n) (l + 1) = Fin M"
          by (simp add: cell)
        with l show ?thesis by blast
      qed
    qed
    have "allreduce_max n ?T (r * n + j) = Fin M"
      unfolding am
    proof (rule fl_maxs_Fin)
      show "score_le (?T (r * n + 0)) M" using n by (intro Tle)
      show "score_le (?T (r * n + (j' + 1))) M" if "j' < n - 1" for j'
        using that by (intro Tle) simp
      show "?T (r * n + 0) = Fin M \<or> (\<exists>j'<n - 1. ?T (r * n + (j' + 1)) = Fin M)"
      proof (cases "s0 mod n")
        case 0
        with T0 show ?thesis by simp
      next
        case (Suc j')
        with g(2) have "j' < n - 1" by simp
        moreover from Suc T0 have "?T (r * n + (j' + 1)) = Fin M" by simp
        ultimately show ?thesis by blast
      qed
    qed
    then show "lse_max_of ct sLSE (r * n + j) = Fin M"
      by (simp add: lse_max_of_def n_def k_def fl_eq_def)
  }
qed

lemma exp_diff_sub:
  assumes "is_score x"
  shows "fl_exp (fl_sub x (Fin M)) = Fin (exp_diff x M)"
  using assms by (cases x) (simp_all add: is_score_def fl_sub_def exp_diff_def)

lemma lse_sum_of_cell:
  fixes ct :: combine_traits and sLSE :: "nat \<Rightarrow> nat \<Rightarrow> fl"
  defines "n \<equiv> kRowsPerLoadTranspose ct" and "k \<equiv> kNLsePerThread ct"
  assumes r: "r < cb_kBlockM ct" and j: "j < n" and kn: "k * n = kMaxSplits ct"
    and sc: "\<And>s. s < kMaxSplits ct \<Longrightarrow> is_score (sLSE s r)"
    and mx: "\<And>j'. j' < n \<Longrightarrow> lse_max_of ct sLSE (r * n + j') = Fin M"
  shows "lse_sum_of ct sLSE (r * n + j) = Fin (\<Sum>s<kMaxSplits ct. exp_diff (sLSE s r) M)"
proof -
  let ?e = "\<lambda>tid l. fl_exp (fl_sub (lse_accum ct sLSE tid l) (lse_max_of ct sLSE tid))"
  let ?S = "\<lambda>tid. fl_sums (?e tid 0) (k - 1) (\<lambda>l. ?e tid (l + 1))"
  let ?E = "\<lambda>s. exp_diff (sLSE s r) M"
  from j have n: "0 < n" by simp
  from kn n have k: "0 < k" by (cases k) (simp_all add: kMaxSplits_def)
  have base: "(r * n + j) div n * n = r * n" using j by simp
  have lt: "l * n + j' < kMaxSplits ct" if "j' < n" "l < k" for j' l
  proof -
    have "l * n + j' < (l + 1) * n" using that by simp
    also have "\<dots> \<le> k * n" using that by (intro mult_le_mono1) simp
    finally show ?thesis using kn by simp
  qed
  have e: "?e (r * n + j') l = Fin (?E (l * n + j'))" if "j' < n" "l < k" for j' l
  proof -
    have "lse_accum ct sLSE (r * n + j') l = sLSE (l * n + j') r"
      using that r kn unfolding n_def k_def by (intro lse_accum_cell) simp_all
    with sc [OF lt [OF that]] mx [OF that(1)] show ?thesis
      by (simp only: exp_diff_sub)
  qed
  have S: "?S (r * n + j') = Fin (\<Sum>l<k. ?E (l * n + j'))" if "j' < n" for j'
  proof -
    have "?S (r * n + j')
        = fl_sums (Fin (?E (0 * n + j'))) (k - 1) (\<lambda>l. ?e (r * n + j') (l + 1))"
      using e [OF that k] by simp
    also have "\<dots> = Fin (?E (0 * n + j') + (\<Sum>l<k - 1. ?E ((l + 1) * n + j')))"
      using that by (intro fl_sums_Fin e) simp_all
    also have "?E (0 * n + j') + (\<Sum>l<k - 1. ?E ((l + 1) * n + j'))
        = (\<Sum>l<k. ?E (l * n + j'))"
      by (rule sum_head [OF k, of "\<lambda>l. ?E (l * n + j')"])
    finally show ?thesis .
  qed
  have "lse_sum_of ct sLSE (r * n + j) = allreduce_sum n ?S (r * n + j)"
    by (simp add: lse_sum_of_def n_def k_def)
  also have "\<dots> = fl_sums (?S (r * n + 0)) (n - 1) (\<lambda>j'. ?S (r * n + (j' + 1)))"
    by (simp add: allreduce_sum_def base add.assoc)
  also have "\<dots> = fl_sums (Fin (\<Sum>l<k. ?E (l * n + 0))) (n - 1)
                     (\<lambda>j'. ?S (r * n + (j' + 1)))"
    using S [OF n] by simp
  also have "\<dots> = Fin ((\<Sum>l<k. ?E (l * n + 0))
                         + (\<Sum>j'<n - 1. \<Sum>l<k. ?E (l * n + (j' + 1))))"
    by (intro fl_sums_Fin S) simp_all
  also have "(\<Sum>l<k. ?E (l * n + 0)) + (\<Sum>j'<n - 1. \<Sum>l<k. ?E (l * n + (j' + 1)))
      = (\<Sum>j'<n. \<Sum>l<k. ?E (l * n + j'))"
    by (rule sum_head [OF n, of "\<lambda>j'. \<Sum>l<k. ?E (l * n + j')"])
  also have "\<dots> = (\<Sum>s<k * n. ?E s)"
    by (rule sum_grid)
  finally show ?thesis by (simp add: kn)
qed

lemma exp_diff_nonneg: "0 \<le> exp_diff x M"
  by (cases x) (simp_all add: exp_diff_def)

lemma exp_diff_sum_pos:
  fixes N :: nat
  assumes "s0 < N" and "L s0 = Fin M'"
  shows "0 < (\<Sum>s<N. exp_diff (L s) M)"
proof -
  have "0 < exp_diff (L s0) M" using assms(2) by (simp add: exp_diff_def)
  with assms(1) show ?thesis
    by (intro sum_pos2 [where i = s0]) (simp_all add: exp_diff_nonneg)
qed

lemma lse_logsum_of_cell:
  fixes ct :: combine_traits and sLSE :: "nat \<Rightarrow> nat \<Rightarrow> fl"
  defines "n \<equiv> kRowsPerLoadTranspose ct" and "k \<equiv> kNLsePerThread ct"
  assumes r: "r < cb_kBlockM ct" and j: "j < n" and kn: "k * n = kMaxSplits ct"
  shows "(\<And>s. s < kMaxSplits ct \<Longrightarrow> sLSE s r = MInf)
           \<Longrightarrow> lse_logsum_of ct sLSE (r * n + j) = PInf"
    and "s0 < kMaxSplits ct \<Longrightarrow> sLSE s0 r = Fin M
           \<Longrightarrow> (\<And>s. s < kMaxSplits ct \<Longrightarrow> score_le (sLSE s r) M)
           \<Longrightarrow> lse_logsum_of ct sLSE (r * n + j)
               = Fin (M + ln (\<Sum>s<kMaxSplits ct. exp_diff (sLSE s r) M))"
proof -
  {
    assume all: "\<And>s. s < kMaxSplits ct \<Longrightarrow> sLSE s r = MInf"
    have mx: "lse_max_of ct sLSE (r * n + j') = Fin 0" if "j' < n" for j'
      using r that kn all unfolding n_def k_def by (rule lse_max_of_cell(1))
    have "lse_sum_of ct sLSE (r * n + j) = Fin (\<Sum>s<kMaxSplits ct. exp_diff (sLSE s r) 0)"
      using r j kn mx unfolding n_def k_def
      by (intro lse_sum_of_cell) (simp_all add: all is_score_def)
    also have "(\<Sum>s<kMaxSplits ct. exp_diff (sLSE s r) 0) = 0"
      by (simp add: all exp_diff_def)
    finally show "lse_logsum_of ct sLSE (r * n + j) = PInf"
      by (simp add: lse_logsum_of_def fl_eq_def)
  }
  {
    assume s0: "s0 < kMaxSplits ct" and M: "sLSE s0 r = Fin M"
      and le: "\<And>s. s < kMaxSplits ct \<Longrightarrow> score_le (sLSE s r) M"
    have mx: "lse_max_of ct sLSE (r * n + j') = Fin M" if "j' < n" for j'
      using r that kn s0 M le unfolding n_def k_def by (rule lse_max_of_cell(2))
    have sm: "lse_sum_of ct sLSE (r * n + j) = Fin (\<Sum>s<kMaxSplits ct. exp_diff (sLSE s r) M)"
      using r j kn mx unfolding n_def k_def
      by (intro lse_sum_of_cell) (simp_all add: score_le_score [OF le])
    have "0 < (\<Sum>s<kMaxSplits ct. exp_diff (sLSE s r) M)"
      using s0 M by (rule exp_diff_sum_pos)
    then show "lse_logsum_of ct sLSE (r * n + j)
               = Fin (M + ln (\<Sum>s<kMaxSplits ct. exp_diff (sLSE s r) M))"
      using mx [OF j] by (simp add: lse_logsum_of_def sm fl_eq_def)
  }
qed

lemma lse_logsum_of_group:
  assumes "tid div kRowsPerLoadTranspose ct = tid' div kRowsPerLoadTranspose ct"
  shows "lse_logsum_of ct sLSE tid = lse_logsum_of ct sLSE tid'"
proof -
  have m: "lse_max_of ct sLSE tid = lse_max_of ct sLSE tid'"
    using assms by (simp add: lse_max_of_def allreduce_max_def)
  have sm: "lse_sum_of ct sLSE tid = lse_sum_of ct sLSE tid'"
    using assms by (simp add: lse_sum_of_def allreduce_sum_def)
  show ?thesis by (simp only: lse_logsum_of_def m sm)
qed

lemma store_scales_cell:
  assumes st: "cb_kBlockM ct \<in> {4, 8, 16, 32}" "cb_kNThreads ct = 128"
      "cb_Log_max_splits ct \<le> 7"
    and ns: "num_splits p \<le> int (kMaxSplits ct)"
    and s: "int s < num_splits p" and r: "r < cb_kBlockM ct"
  shows "store_scales ct p sLSE s r
         = fl_exp (fl_sub (sLSE s r) (lse_logsum_of ct sLSE (r * kRowsPerLoadTranspose ct)))"
proof -
  let ?n = "kRowsPerLoadTranspose ct" and ?B = "cb_kBlockM ct"
  let ?V = "\<lambda>a b. fl_exp (fl_sub (sLSE a b) (lse_logsum_of ct sLSE (b * ?n)))"
  let ?row = "\<lambda>x. snd x * ?n + fst x mod ?n" and ?col = "\<lambda>x::nat \<times> nat. fst x div ?n"
  let ?g = "\<lambda>x. int (?row x) < num_splits p \<and> ?col x < ?B"
  let ?val = "\<lambda>x. fl_exp (fl_sub (lse_accum ct sLSE (fst x) (snd x))
                                (lse_logsum_of ct sLSE (fst x)))"
  let ?xs = "List.product [0..<cb_kNThreads ct] [0..<kNLsePerThread ct]"
  note cs = combine_static [OF st]
  from s ns have sM: "s < kMaxSplits ct" by simp
  have eq: "store_scales ct p sLSE
      = fold (\<lambda>x s. if ?g x then s(?row x := (s (?row x))(?col x := ?val x)) else s) ?xs sLSE"
    unfolding store_scales_def by (rule arg_cong [where f = "\<lambda>f. fold f ?xs sLSE"])
      (simp add: fun_eq_iff Let_def split_def)
  have val: "?val x = ?V (?row x) (?col x)" if "?g x" for x
  proof -
    from that ns have "int (?row x) < int (kMaxSplits ct)" by linarith
    then have "?row x < kMaxSplits ct" by (simp only: of_nat_less_iff)
    with that have "lse_accum ct sLSE (fst x) (snd x) = sLSE (?row x) (?col x)"
      by (simp add: lse_accum_def Let_def)
    moreover have "lse_logsum_of ct sLSE (fst x) = lse_logsum_of ct sLSE (?col x * ?n)"
      using cs(1) by (intro lse_logsum_of_group) simp
    ultimately show ?thesis by simp
  qed
  have ex: "\<exists>x\<in>set ?xs. ?g x \<and> ?row x = s \<and> ?col x = r"
  proof (rule bexI [where x = "(r * ?n + s mod ?n, s div ?n)"])
    from sM cs(2) have s': "s < kNLsePerThread ct * ?n" by simp
    note g = grid_index [OF s']
    have "r * ?n + s mod ?n < (r + 1) * ?n" using g(2) by simp
    also have "\<dots> \<le> ?B * ?n" using r by (intro mult_le_mono1) simp
    finally have "r * ?n + s mod ?n < 128" using cs(3) by simp
    with g(1) show "(r * ?n + s mod ?n, s div ?n) \<in> set ?xs"
      using st(2) by simp
    have "?row (r * ?n + s mod ?n, s div ?n) = s" using g(2,3) by simp
    moreover have "?col (r * ?n + s mod ?n, s div ?n) = r" using g(2) by simp
    ultimately show "?g (r * ?n + s mod ?n, s div ?n)
        \<and> ?row (r * ?n + s mod ?n, s div ?n) = s \<and> ?col (r * ?n + s mod ?n, s div ?n) = r"
      using s r by simp
  qed
  have "store_scales ct p sLSE s r
      = (if \<exists>x\<in>set ?xs. ?g x \<and> ?row x = s \<and> ?col x = r then ?V s r else sLSE s r)"
    unfolding eq by (rule fold_stores [where V = ?V]) (rule val)
  with ex show ?thesis by simp
qed

lemma sum_splits:
  fixes g :: "nat \<Rightarrow> real"
  assumes "N \<le> K" and "\<And>s. N \<le> s \<Longrightarrow> s < K \<Longrightarrow> g s = 0"
  shows "(\<Sum>s<K. g s) = (\<Sum>s<N. g s)"
  using assms by (intro sum.mono_neutral_right) auto

text \<open>
  C5. For a row \<open>r\<close> of the tile of block \<open>bidx\<close> that lies within the output, with partial
  log-sum-exps \<open>L s\<close> (real numbers or minus infinity) and finite partial outputs of the
  \<open>num_splits\<close> splits: if every \<open>L s\<close> is minus infinity, the reduction kernel writes the
  log-sum-exp plus infinity and the output \<open>0\<close> (no NaN); and if \<open>M\<close> is the maximum of the
  \<open>L s\<close>, it writes the log-sum-exp \<open>M + ln (\<Sum>s. exp (L s - M))\<close> and the output
  \<open>\<Sum>s. exp (L s - LSE) * O s\<close>.
\<close>

theorem combine_rows:
  fixes ct :: combine_traits and p :: params and lseaccum oaccum :: "int \<Rightarrow> fl"
    and bidx :: int and r c :: nat and M :: real and init stale even_K
  defines "ns \<equiv> nat (num_splits p)"
  defines "L \<equiv> lse_split ct p lseaccum bidx r"
  defines "Os \<equiv> o_split ct p oaccum bidx r c"
  defines "out \<equiv> combine_attn_seqk_parallel ct even_K p lseaccum oaccum init stale bidx"
  assumes st: "cb_kBlockM ct \<in> {4, 8, 16, 32}" "cb_kNThreads ct = 128"
      "cb_Log_max_splits ct \<le> 7"
    and nsM: "num_splits p \<le> int (kMaxSplits ct)"
    and r: "r < cb_kBlockM ct" and row: "bidx * int (cb_kBlockM ct) + int r < total_rows p"
    and c: "c < cb_kHeadDim ct" "even_K \<or> int c < params_d p"
    and sc: "\<forall>s<ns. is_score (L s)"
    and fin: "\<forall>s<ns. Os s = Fin (fin_of (Os s))"
  shows "((\<forall>s<ns. L s = MInf)
            \<longrightarrow> cb_LSE out r = Some PInf \<and> cb_O out r c = Some (Fin 0))
       \<and> ((\<exists>s<ns. L s = Fin M) \<and> (\<forall>s<ns. score_le (L s) M)
            \<longrightarrow> cb_LSE out r = Some (Fin (M + ln (\<Sum>s<ns. exp_diff (L s) M)))
              \<and> cb_O out r c
                  = Some (Fin (\<Sum>s<ns. exp_diff (L s) (M + ln (\<Sum>s<ns. exp_diff (L s) M))
                                        * fin_of (Os s))))"
proof -
  let ?n = "kRowsPerLoadTranspose ct" and ?K = "kMaxSplits ct"
  define sLSE where "sLSE = load_sLSE ct p lseaccum bidx init"
  define A where "A = (\<lambda>s. if s < ns then L s else MInf)"
  note cs = combine_static [OF st]
  from nsM have nsK: "ns \<le> ?K" by (simp add: ns_def)
  have ins: "int s < num_splits p \<longleftrightarrow> s < ns" for s
    by (auto simp: ns_def)
  have cell: "sLSE s r = A s" if "s < ?K" for s
    using row r that
    by (simp add: sLSE_def load_sLSE_cell [OF st that r] A_def ins L_def lse_split_def
        algebra_simps)
  have rn: "r * ?n < cb_kNThreads ct"
  proof -
    have "r * ?n < (r + 1) * ?n" using cs(1) by simp
    also have "\<dots> \<le> cb_kBlockM ct * ?n" using r by (intro mult_le_mono1) simp
    finally have "r * ?n < cb_kBlockM ct * ?n" .
    with cs(3) st(2) show ?thesis by linarith
  qed
  have lse: "cb_LSE out r = Some (lse_logsum_of ct sLSE (r * ?n))"
    using r rn by (simp add: out_def combine_attn_seqk_parallel_def Let_def sLSE_def)
  have O: "cb_O out r c
      = Some (fl_sums (Fin 0) ns (\<lambda>s. fl_mul (store_scales ct p sLSE s r) (Os s)))"
    using r row c
    by (simp add: out_def combine_attn_seqk_parallel_def Let_def sLSE_def accumulate_O_def
        ns_def Os_def o_split_def)
  have scale: "store_scales ct p sLSE s r
      = fl_exp (fl_sub (L s) (lse_logsum_of ct sLSE (r * ?n)))" if "s < ns" for s
  proof -
    from that have s: "int s < num_splits p" by (simp add: ins)
    from that nsK have "s < ?K" by simp
    then have "sLSE s r = L s" using that by (simp add: cell A_def)
    then show ?thesis
      by (simp add: store_scales_cell [OF st nsM s r])
  qed
  have kn: "kNLsePerThread ct * ?n = ?K" by (rule cs(2))
  have all: "cb_LSE out r = Some PInf \<and> cb_O out r c = Some (Fin 0)" if a: "\<forall>s<ns. L s = MInf"
  proof -
    have "sLSE s r = MInf" if "s < ?K" for s
      using that a by (simp add: cell A_def)
    then have ls: "lse_logsum_of ct sLSE (r * ?n) = PInf"
      using lse_logsum_of_cell(1) [where j = 0 and sLSE = sLSE, OF r cs(1) kn] by simp
    have "fl_mul (store_scales ct p sLSE s r) (Os s) = Fin 0" if "s < ns" for s
    proof -
      from that a have "store_scales ct p sLSE s r = Fin 0"
        by (simp add: scale ls fl_sub_def)
      moreover from fin that obtain x where "Os s = Fin x" by blast
      ultimately show ?thesis by simp
    qed
    then have "fl_sums (Fin 0) ns (\<lambda>s. fl_mul (store_scales ct p sLSE s r) (Os s))
        = Fin (0 + (\<Sum>s<ns. 0))"
      by (intro fl_sums_Fin)
    with ls show ?thesis by (simp add: lse O)
  qed
  have some: "cb_LSE out r = Some (Fin (M + ln (\<Sum>s<ns. exp_diff (L s) M)))
       \<and> cb_O out r c
           = Some (Fin (\<Sum>s<ns. exp_diff (L s) (M + ln (\<Sum>s<ns. exp_diff (L s) M))
                                 * fin_of (Os s)))"
    if ex: "\<exists>s<ns. L s = Fin M" and le: "\<forall>s<ns. score_le (L s) M"
  proof -
    from ex obtain s0 where s0: "s0 < ns" "L s0 = Fin M" by blast
    from s0 nsK have s0K: "s0 < ?K" by simp
    from s0 s0K have c0: "sLSE s0 r = Fin M" by (simp add: cell A_def)
    have cle: "score_le (sLSE s r) M" if "s < ?K" for s
      using that le by (simp add: cell A_def score_le_def)
    have "lse_logsum_of ct sLSE (r * ?n) = Fin (M + ln (\<Sum>s<?K. exp_diff (sLSE s r) M))"
      using lse_logsum_of_cell(2) [where j = 0 and sLSE = sLSE, OF r cs(1) kn s0K c0 cle]
      by simp
    also have "(\<Sum>s<?K. exp_diff (sLSE s r) M) = (\<Sum>s<?K. exp_diff (A s) M)"
      by (intro sum.cong) (simp_all add: cell)
    also have "\<dots> = (\<Sum>s<ns. exp_diff (A s) M)"
      using nsK by (intro sum_splits) (simp_all add: A_def exp_diff_def)
    also have "\<dots> = (\<Sum>s<ns. exp_diff (L s) M)"
      by (intro sum.cong) (simp_all add: A_def)
    finally have ls: "lse_logsum_of ct sLSE (r * ?n)
        = Fin (M + ln (\<Sum>s<ns. exp_diff (L s) M))" .
    let ?F = "M + ln (\<Sum>s<ns. exp_diff (L s) M)"
    have "fl_mul (store_scales ct p sLSE s r) (Os s)
        = Fin (exp_diff (L s) ?F * fin_of (Os s))" if "s < ns" for s
    proof -
      from sc that have "is_score (L s)" by simp
      then have "store_scales ct p sLSE s r = Fin (exp_diff (L s) ?F)"
        using that by (simp add: scale ls exp_diff_sub)
      moreover from fin that obtain x where "Os s = Fin x" by blast
      ultimately show ?thesis by (simp add: fin_of_def)
    qed
    then have "fl_sums (Fin 0) ns (\<lambda>s. fl_mul (store_scales ct p sLSE s r) (Os s))
        = Fin (0 + (\<Sum>s<ns. exp_diff (L s) ?F * fin_of (Os s)))"
      by (intro fl_sums_Fin)
    with ls show ?thesis by (simp add: lse O)
  qed
  from all some show ?thesis by blast
qed

theorem combine_rows_witness:
  "(cb_LSE (combine_attn_seqk_parallel ex_combine_traits True ex_params (\<lambda>a. MInf)
              (\<lambda>a. Fin 1) (\<lambda>r c. NaN) (\<lambda>r c. NaN) 0) 0 = Some PInf
    \<and> cb_O (combine_attn_seqk_parallel ex_combine_traits True ex_params (\<lambda>a. MInf)
              (\<lambda>a. Fin 1) (\<lambda>r c. NaN) (\<lambda>r c. NaN) 0) 0 0 = Some (Fin 0))
   \<and> (cb_LSE (combine_attn_seqk_parallel ex_combine_traits True ex_params (\<lambda>a. Fin 0)
              (\<lambda>a. Fin 1) (\<lambda>r c. NaN) (\<lambda>r c. NaN) 0) 0 = Some (Fin (ln 2))
    \<and> cb_O (combine_attn_seqk_parallel ex_combine_traits True ex_params (\<lambda>a. Fin 0)
              (\<lambda>a. Fin 1) (\<lambda>r c. NaN) (\<lambda>r c. NaN) 0) 0 0 = Some (Fin 1))"
proof -
  have two: "{..<2::nat} = {0, 1}" by auto
  have e: "exp (- ln 2) = (1 / 2 :: real)" by (simp add: exp_minus inverse_eq_divide)
  have ex: "\<exists>s::nat. s < 2" by (rule exI [where x = 0]) simp
  show ?thesis
    using combine_rows [where ct = ex_combine_traits and p = ex_params
        and lseaccum = "\<lambda>a. MInf" and oaccum = "\<lambda>a. Fin 1" and bidx = 0 and r = 0 and c = 0
        and M = 0 and even_K = True and init = "\<lambda>r c. NaN" and stale = "\<lambda>r c. NaN"]
      combine_rows [where ct = ex_combine_traits and p = ex_params
        and lseaccum = "\<lambda>a. Fin 0" and oaccum = "\<lambda>a. Fin 1" and bidx = 0 and r = 0 and c = 0
        and M = 0 and even_K = True and init = "\<lambda>r c. NaN" and stale = "\<lambda>r c. NaN"]
    by (simp add: ex_combine_traits_def ex_params_def lse_split_def o_split_def kMaxSplits_def
        total_rows_def is_score_def fin_of_def score_le_def exp_diff_def two e ex)
qed

subsection \<open>The split kernel\<close>

lemma n_block_max_split_top:
  assumes "0 < kBlockN t" and "0 < n_block_max_split f t p binfo m_block s ns"
  shows "(n_block_max_split f t p binfo m_block s ns - 1) * int (kBlockN t)
           < actual_seqlen_k binfo"
proof -
  let ?B = "int (kBlockN t)"
  have "n_block_max_split f t p binfo m_block s ns \<le> ceil_div (actual_seqlen_k binfo) ?B"
    by (auto simp: n_block_max_split_def Let_def)
  then have "n_block_max_split f t p binfo m_block s ns * ?B < actual_seqlen_k binfo + ?B"
    using assms by (intro ceil_div_clamp(2)) simp_all
  then show ?thesis by (simp add: algebra_simps)
qed

lemma n_block_max_split_clamp:
  assumes "0 < kBlockN t" and "0 < n_block_max_split f t p binfo m_block s ns"
    and "Is_causal f" and "window_size_right p = 0"
  shows "n_block_max_split f t p binfo m_block s ns * int (kBlockN t)
           < (m_block + 1) * int (kBlockM t) + actual_seqlen_k binfo - actual_seqlen_q binfo
             + int (kBlockN t)"
proof -
  have "n_block_max_split f t p binfo m_block s ns
      \<le> ceil_div ((m_block + 1) * int (kBlockM t) + actual_seqlen_k binfo
                    - actual_seqlen_q binfo) (int (kBlockN t))"
    using assms(3,4) by (simp add: n_block_max_split_def Let_def)
  then show ?thesis
    using assms(1,2) by (intro ceil_div_clamp(2)) simp_all
qed

text \<open>What a block of the split kernel writes for a row of its query tile below
  \<open>actual_seqlen_q\<close>, when its tile range is not empty and nothing is appended.\<close>

lemma split_row:
  fixes f :: flags and t :: traits and p :: params and binfo :: block_info and mem :: gmemory
    and bidb bidh m_block s ns :: int and i :: nat and slopes sm0 rotary
  defines "sc \<equiv> split_logit f t p binfo mem slopes rotary bidb bidh m_block s ns i"
  defines "J \<equiv> split_keys f t p binfo m_block s ns"
  defines "W \<equiv> \<Sum>pos\<in>J. exp_weight (scale_softmax p) (sc pos)"
  defines "out \<equiv> compute_attn_1rowblock_splitkv f t p binfo mem slopes sm0 rotary bidb bidh
                    m_block s ns"
  assumes Br: "0 < kBlockM t" and Bc: "0 < kBlockN t"
    and shape: "kBlockN t dvd kBlockM t \<or> kBlockM t dvd kBlockN t"
    and scale: "0 < scale_softmax p" "scale_softmax_log2 p = scale_softmax p / ln 2"
    and even: "Is_even_MN f \<Longrightarrow> int (kBlockN t) dvd actual_seqlen_k binfo
                 \<and> int (kBlockM t) dvd actual_seqlen_q binfo"
    and causal: "Is_causal f \<Longrightarrow> \<not> Is_local f \<and> window_size_right p = 0"
    and i: "i < kBlockM t" "m_block * int (kBlockM t) + int i < actual_seqlen_q binfo"
    and nn: "0 \<le> n_block_min_split f t p binfo m_block s ns"
    and range: "n_block_min_split f t p binfo m_block s ns
                  < n_block_max_split f t p binfo m_block s ns"
  shows "out_LSE out i
           = Some (if W = 0 then (if Split f then MInf else PInf) else Fin (ln W))"
    and "c < kHeadDim t \<Longrightarrow> Is_even_K f \<or> int c < params_d p \<Longrightarrow> out_O out i c
           = Some (if W = 0 then Fin 0
                   else Fin ((\<Sum>pos\<in>J. exp_weight (scale_softmax p) (sc pos)
                                * split_v f t p binfo mem rotary bidb bidh m_block s ns pos c)
                             / W))"
    and "out_k_mem out = fst (split_caches f t p binfo mem rotary bidb bidh m_block s ns)"
    and "out_v_mem out = snd (split_caches f t p binfo mem rotary bidb bidh m_block s ns)"
proof -
  let ?B = "int (kBlockN t)"
  let ?sk = "actual_seqlen_k binfo" and ?sq = "actual_seqlen_q binfo"
  let ?row = "m_block * int (kBlockM t) + int i"
  let ?nmin = "n_block_min_split f t p binfo m_block s ns"
  let ?nmax = "n_block_max_split f t p binfo m_block s ns"
  let ?chk = "Is_causal f \<or> Is_local f \<or> \<not> Is_even_MN f"
  define btab where "btab = block_table_row p mem bidb"
  define caches where "caches = split_caches f t p binfo mem rotary bidb bidh m_block s ns"
  define mk where "mk = make_mask p binfo (alibi_slope_split f p slopes bidb bidh)"
  define memr where "memr = mem\<lparr>k_mem := fst caches, v_mem := snd caches, block_table := btab\<rparr>"
  define max_M where "max_M = ?sq - m_block * int (kBlockM t)"
  define sQ where "sQ = (if \<not> Append_KV f \<or> rotary_dim p = 0
       then copy_g2s (Is_even_MN f) (Is_even_K f) False (params_d p) (q_mem mem)
              (row_offset_q t p binfo bidb bidh m_block) (q_row_stride p) max_M (smem_Q sm0)
       else load_q_rotary f t p binfo mem rotary (row_offset_q t p binfo bidb bidh m_block)
              m_block (smem_Q sm0))"
  define kbase where "kbase = kv_base p binfo mem (k_batch_stride p) (k_row_stride p)
                                (k_head_stride p) bidb bidh"
  define vbase where "vbase = kv_base p binfo mem (v_batch_stride p) (v_row_stride p)
                                (v_head_stride p) bidb bidh"
  define tKgK where "tKgK = row_offset_k_split t p binfo btab (bidb_cache_of mem bidb) bidh ?nmax"
  define tVgV where "tVgV = row_offset_v_split t p binfo btab (bidb_cache_of mem bidb) bidh ?nmax"
  define st0 where "st0 = \<lparr>st_tKgK = tKgK, st_tVgV = tVgV,
       st_sK = copy_g2s (Is_even_MN f) (Is_even_K f) False (params_d p) (fst caches)
                 tKgK (k_row_stride p) (?sk - (?nmax - 1) * ?B) (smem_K sm0),
       st_sV = smem_V sm0, st_acc_o = (\<lambda>r c. Fin 0),
       st_softmax = \<lparr>row_max = (\<lambda>r. MInf), row_sum = (\<lambda>r. Fin 0)\<rparr>\<rparr>"
  define ml where "ml = masking_loop
       (masking_body f t p binfo memr mk ?chk (\<lambda>n rP. rP) sQ m_block ?nmin)
       (n_masking_steps f t) ?nmin 0 (?nmax - 1) st0"
  define st2 where "st2 = snd (main_loop (main_body f t p memr mk (\<lambda>n rP. rP) sQ m_block ?nmin)
       ?nmin (fst ml) (snd ml))"
  define nz where "nz = normalize_softmax_lse False (Split f) (st_softmax st2) (st_acc_o st2)
       (scale_softmax p) 1"
  define qr where "qr = split_q_row f t p binfo mem rotary bidb bidh m_block i"
  define kk where "kk = kv_at f t p (k_mem memr) (block_table memr) (k_batch_stride p)
       (k_row_stride p) kbase"
  define vv where "vv = kv_at f t p (v_mem memr) (block_table memr) (v_batch_stride p)
       (v_row_stride p) vbase"
  from i have mb: "m_block * int (kBlockM t) < ?sq" and iM: "int i < max_M"
    by (simp_all add: max_M_def)
  have cs: "caches = (fst caches, snd caches)" by simp
  have outL: "out_LSE out = store_rows t max_M (fst nz)"
    and outO: "out_O out = store_tile (Is_even_MN f) (Is_even_K f) t (params_d p) max_M (snd nz)"
    and outK: "out_k_mem out = fst caches" and outV: "out_v_mem out = snd caches"
    using mb range
    by (simp_all add: out_def compute_attn_1rowblock_splitkv_def Let_def split_def nz_def
        st2_def ml_def st0_def sQ_def mk_def memr_def max_M_def btab_def tKgK_def tVgV_def
        bidb_cache_of_def caches_def split_caches_def)
  have kp: "tKgK = tile_ptr (block_table memr) t p (k_batch_stride p) (k_row_stride p) kbase
                     (?nmax - 1)"
    and vp: "tVgV = tile_ptr (block_table memr) t p (v_batch_stride p) (v_row_stride p) vbase
                     (?nmax - 1)"
    by (simp_all add: memr_def tile_ptr_def kbase_def vbase_def tKgK_def tVgV_def
        row_offset_k_split_def row_offset_v_split_def row_offset_k_def row_offset_v_def
        row_offset_paged_def kv_base_def btab_def block_table_row_def Let_def algebra_simps
        split: option.splits)
  have q: "sQ i c = Fin (qr c)" for c
    using iM
    by (simp add: sQ_def copy_g2s_def load_q_rotary_def Let_def qr_def split_q_row_def
        q_row_filled_def q_row_of_def max_M_def)
  have mkl: "max_seqlen_k mk = ?sk" "max_seqlen_q mk = ?sq"
    by (simp_all add: mk_def make_mask_def)
  have kmem: "k_mem memr = fst caches" "v_mem memr = snd caches" "block_table memr = btab"
    by (simp_all add: memr_def)
  have sc: "sc = logit f t mk qr kk ?row"
    by (simp add: sc_def split_logit_def mk_def qr_def kk_def split_k_def kmem btab_def
        kbase_def caches_def)
  have svv: "split_v f t p binfo mem rotary bidb bidh m_block s ns = vv"
    by (simp add: split_v_def vv_def kmem btab_def vbase_def caches_def)
  have ri: "row_inv (scale_softmax_log2 p) sc vv J
              (row_max (st_softmax st2) i) (row_sum (st_softmax st2) i) (st_acc_o st2 i)"
    unfolding sc kk_def vv_def st2_def ml_def J_def split_keys_def
  proof (rule attn_loops_row [where binfo = binfo])
    have npos: "0 < ?nmax" using range nn by simp
    show "0 < scale_softmax_log2 p" using scale by simp
    show "(?nmax - 1) * ?B < ?sk" using Bc npos by (rule n_block_max_split_top)
    show "?nmax * ?B < (m_block + 1) * int (kBlockM t) + ?sk - ?sq + ?B" if "Is_causal f"
      using Bc npos that causal by (intro n_block_max_split_clamp) simp_all
    show "st_sK st0 r c = Fin (kv_at f t p (k_mem memr) (block_table memr) (k_batch_stride p)
            (k_row_stride p) kbase ((?nmax - 1) * ?B + int r) c)"
      if "r < kBlockN t" "(?nmax - 1) * ?B + int r < ?sk" for r c
      using that by (simp add: st0_def copy_g2s_def kv_at_tile kp [unfolded kmem] kmem)
    show "?chk" if "Is_causal f \<or> Is_local f" using that by blast
  qed (use Br Bc range even shape causal mkl q in \<open>simp_all add: st0_def kp vp\<close>)
  have fJ: "finite J" by (simp add: J_def split_keys_def)
  have score: "is_score (sc j)" for j
    by (simp add: sc logit_score)
  have nr: "fst nz i = (if W = 0 then (if Split f then MInf else PInf) else Fin (ln W))"
      "snd nz i c = (if W = 0 then Fin 0
           else Fin ((\<Sum>j\<in>J. exp_weight (scale_softmax p) (sc j) * vv j c) / W))" for c
    using normalize_row [where sc = sc and J = J and split = "Split f"
        and sm = "st_softmax st2" and acc_o = "st_acc_o st2" and i = i and v = vv,
        OF ri fJ scale(2) score]
    by (simp_all add: nz_def W_def)
  show "out_LSE out i = Some (if W = 0 then (if Split f then MInf else PInf) else Fin (ln W))"
    using nr(1) i(1) iM by (simp add: outL store_rows_def)
  show "out_O out i c
           = Some (if W = 0 then Fin 0
                   else Fin ((\<Sum>pos\<in>J. exp_weight (scale_softmax p) (sc pos)
                                * split_v f t p binfo mem rotary bidb bidh m_block s ns pos c)
                             / W))"
    if "c < kHeadDim t" "Is_even_K f \<or> int c < params_d p"
    using nr(2) [of c] i(1) iM that by (simp add: outO store_tile_def svv)
  show "out_k_mem out = fst (split_caches f t p binfo mem rotary bidb bidh m_block s ns)"
    by (simp add: outK caches_def)
  show "out_v_mem out = snd (split_caches f t p binfo mem rotary bidb bidh m_block s ns)"
    by (simp add: outV caches_def)
qed

subsection \<open>Paged addressing\<close>






lemma n_blocks_per_split_nonneg:
  assumes "0 < kBlockN t" and "0 < ns" and "0 \<le> seqlen_k p"
  shows "0 \<le> n_blocks_per_split t p ns"
proof -
  let ?B = "int (kBlockN t)"
  have a: "(seqlen_k p + ?B - 1) sdiv ?B = (seqlen_k p + ?B - 1) div ?B"
    using assms by (intro sdiv_nonneg_div) simp_all
  have "0 \<le> (seqlen_k p + ?B - 1) div ?B"
    using assms by (simp add: pos_imp_zdiv_nonneg_iff)
  then have b: "0 \<le> (seqlen_k p + ?B - 1) div ?B + ns - 1" using assms(2) by simp
  then have "((seqlen_k p + ?B - 1) div ?B + ns - 1) sdiv ns
      = ((seqlen_k p + ?B - 1) div ?B + ns - 1) div ns"
    using assms(2) by (rule sdiv_nonneg_div)
  with b assms(2) show ?thesis
    by (simp add: n_blocks_per_split_def a pos_imp_zdiv_nonneg_iff)
qed

lemma n_block_min_split_nonneg:
  assumes "0 < kBlockN t" and "0 < ns" and "0 \<le> seqlen_k p" and "0 \<le> s"
  shows "0 \<le> n_block_min_split f t p binfo m_block s ns"
proof -
  have "0 \<le> s * n_blocks_per_split t p ns"
    using assms(4) n_blocks_per_split_nonneg [OF assms(1-3)] by (rule mult_nonneg_nonneg)
  then show ?thesis
    by (simp add: n_block_min_split_def le_max_iff_disj)
qed

lemma split_keys_bounds:
  assumes "0 < kBlockN t" and "0 < ns" and "0 \<le> seqlen_k p" and "0 \<le> s"
    and "pos \<in> split_keys f t p binfo m_block s ns"
  shows "0 \<le> pos"
proof -
  have "0 \<le> n_block_min_split f t p binfo m_block s ns * int (kBlockN t)"
    using n_block_min_split_nonneg [OF assms(1-4)] by simp
  with assms(5) show ?thesis by (simp add: split_keys_def)
qed


lemma split_empty_range:
  assumes "m_block * int (kBlockM t) < actual_seqlen_q binfo"
    and "n_block_max_split f t p binfo m_block s ns
           \<le> n_block_min_split f t p binfo m_block s ns"
  shows "out_LSE (compute_attn_1rowblock_splitkv f t p binfo mem slopes sm0 rotary bidb bidh
                    m_block s ns)
         = store_rows t (actual_seqlen_q binfo - m_block * int (kBlockM t))
             (\<lambda>r. if Split f then MInf else PInf)"
    and "out_O (compute_attn_1rowblock_splitkv f t p binfo mem slopes sm0 rotary bidb bidh
                  m_block s ns)
         = store_tile (Is_even_MN f) (Is_even_K f) t (params_d p)
             (actual_seqlen_q binfo - m_block * int (kBlockM t)) (\<lambda>r c. Fin 0)"
    and "out_k_mem (compute_attn_1rowblock_splitkv f t p binfo mem slopes sm0 rotary bidb bidh
                      m_block s ns) = k_mem mem"
    and "out_v_mem (compute_attn_1rowblock_splitkv f t p binfo mem slopes sm0 rotary bidb bidh
                      m_block s ns) = v_mem mem"
  using assms by (simp_all add: compute_attn_1rowblock_splitkv_def Let_def)



text \<open>The closed form of a row of a split, for an empty tile range too.\<close>

lemma split_row_any:
  fixes f :: flags and t :: traits and p :: params and binfo :: block_info and mem :: gmemory
    and bidb bidh m_block s ns :: int and i :: nat and slopes sm0 rotary
  defines "sc \<equiv> split_logit f t p binfo mem slopes rotary bidb bidh m_block s ns i"
  defines "J \<equiv> split_keys f t p binfo m_block s ns"
  defines "W \<equiv> \<Sum>pos\<in>J. exp_weight (scale_softmax p) (sc pos)"
  defines "out \<equiv> compute_attn_1rowblock_splitkv f t p binfo mem slopes sm0 rotary bidb bidh
                    m_block s ns"
  assumes Br: "0 < kBlockM t" and Bc: "0 < kBlockN t"
    and shape: "kBlockN t dvd kBlockM t \<or> kBlockM t dvd kBlockN t"
    and scale: "0 < scale_softmax p" "scale_softmax_log2 p = scale_softmax p / ln 2"
    and even: "Is_even_MN f \<Longrightarrow> int (kBlockN t) dvd actual_seqlen_k binfo
                 \<and> int (kBlockM t) dvd actual_seqlen_q binfo"
    and causal: "Is_causal f \<Longrightarrow> \<not> Is_local f \<and> window_size_right p = 0"
    and i: "i < kBlockM t" "m_block * int (kBlockM t) + int i < actual_seqlen_q binfo"
    and split: "0 \<le> s" "0 < ns" "0 \<le> seqlen_k p"
  shows "out_LSE out i
           = Some (if W = 0 then (if Split f then MInf else PInf) else Fin (ln W))"
    and "c < kHeadDim t \<Longrightarrow> Is_even_K f \<or> int c < params_d p \<Longrightarrow> out_O out i c
           = Some (if W = 0 then Fin 0
                   else Fin ((\<Sum>pos\<in>J. exp_weight (scale_softmax p) (sc pos)
                                * split_v f t p binfo mem rotary bidb bidh m_block s ns pos c)
                             / W))"
proof -
  let ?nmin = "n_block_min_split f t p binfo m_block s ns"
  let ?nmax = "n_block_max_split f t p binfo m_block s ns"
  let ?max_M = "actual_seqlen_q binfo - m_block * int (kBlockM t)"
  from i have mb: "m_block * int (kBlockM t) < actual_seqlen_q binfo" and iM: "int i < ?max_M"
    by simp_all
  have nn: "0 \<le> ?nmin" by (rule n_block_min_split_nonneg [OF Bc split(2,3,1)])
  have "out_LSE out i
           = Some (if W = 0 then (if Split f then MInf else PInf) else Fin (ln W))
      \<and> (c < kHeadDim t \<and> (Is_even_K f \<or> int c < params_d p) \<longrightarrow> out_O out i c
           = Some (if W = 0 then Fin 0
                   else Fin ((\<Sum>pos\<in>J. exp_weight (scale_softmax p) (sc pos)
                                * split_v f t p binfo mem rotary bidb bidh m_block s ns pos c)
                             / W)))"
  proof (cases "?nmin < ?nmax")
    case True
    show ?thesis
      unfolding out_def W_def J_def sc_def
      using split_row(1) [OF Br Bc shape scale even causal i nn True,
          where mem = mem and slopes = slopes and rotary = rotary and bidb = bidb
            and bidh = bidh]
        split_row(2) [OF Br Bc shape scale even causal i nn True,
          where mem = mem and slopes = slopes and rotary = rotary and bidb = bidb
            and bidh = bidh and c = c]
      by blast
  next
    case False
    then have e: "?nmax \<le> ?nmin" by simp
    then have "J = {}" using Bc by (simp add: J_def split_keys_def)
    then have W: "W = 0" by (simp add: W_def)
    show ?thesis
      using i(1) iM
      by (simp add: out_def split_empty_range [OF mb e] store_rows_def store_tile_def W)
  qed
  then show "out_LSE out i
           = Some (if W = 0 then (if Split f then MInf else PInf) else Fin (ln W))"
    and "c < kHeadDim t \<Longrightarrow> Is_even_K f \<or> int c < params_d p \<Longrightarrow> out_O out i c
           = Some (if W = 0 then Fin 0
                   else Fin ((\<Sum>pos\<in>J. exp_weight (scale_softmax p) (sc pos)
                                * split_v f t p binfo mem rotary bidb bidh m_block s ns pos c)
                             / W))"
    by simp_all
qed







text \<open>With pages of 16 rows under tiles of 64 rows, the split kernel reads 64 consecutive
  rows from the start of the first page of the tile: the block whose 48 keys lie in three
  pages listed in reverse order takes its keys 16 to 47 from beyond the last page, and
  writes the output \<open>1 / 3\<close> where the unpaged cache with the same contents gives \<open>1\<close>.\<close>

lemma ex_paged_same_contents:
  assumes "pos \<in> {0..<actual_seqlen_k ex_binfo_paged}" and "c < kHeadDim ex_traits"
  shows "v_mem ex_mem_paged
           (paged_ptr ex_params_paged ex_table (v_batch_stride ex_params_paged)
              (v_row_stride ex_params_paged) 0 pos + int c)
         = v_mem ex_mem_unpaged
             (kv_base ex_params_paged ex_binfo_paged ex_mem_unpaged
                (v_batch_stride ex_params_paged) (v_row_stride ex_params_paged)
                (v_head_stride ex_params_paged) 0 0 + pos * v_row_stride ex_params_paged + int c)"
proof -
  from assms have pos: "0 \<le> pos" "pos < 48" and c: "c < 64"
    by (simp_all add: ex_binfo_paged_def ex_traits_def)
  from pos have d: "0 \<le> pos div 16" by simp
  have m: "pos mod 16 < 16" by simp
  from c have c': "int c < 64" by simp
  have "(2 - pos div 16) * 2048 \<le> 4096" using d by simp
  moreover have "pos mod 16 * 128 \<le> 1920" using m by simp
  ultimately have "(2 - pos div 16) * 2048 + pos mod 16 * 128 + int c < 6144"
    using c' by linarith
  then show ?thesis
    by (simp add: ex_mem_paged_def ex_mem_unpaged_def paged_ptr_def ex_params_paged_def
        ex_params_def ex_table_def)
qed


subsection \<open>Rows without unmasked keys\<close>





lemma masked_out_slope:
  "masked_out cm lc ev (make_mask p binfo s) row col
     = masked_out cm lc ev (make_mask p binfo s') row col"
  by (simp add: masked_out_def make_mask_def)

lemma dense_empty_range:
  assumes "m_block * int (kBlockM t) < actual_seqlen_q binfo"
    and "Is_causal f \<or> Is_local f \<or> \<not> Is_even_MN f"
    and "n_block_max_dense f t p binfo m_block \<le> n_block_min_dense f t p binfo m_block"
  shows "out_LSE (compute_attn_1rowblock f t p binfo mem sm0 seed_offset blockIdx rng
                    apply_dropout bidb bidh m_block)
         = store_rows t (actual_seqlen_q binfo - m_block * int (kBlockM t)) (\<lambda>r. PInf)"
    and "out_O (compute_attn_1rowblock f t p binfo mem sm0 seed_offset blockIdx rng
                  apply_dropout bidb bidh m_block)
         = store_tile (Is_even_MN f) (Is_even_K f) t (params_d p)
             (actual_seqlen_q binfo - m_block * int (kBlockM t)) (\<lambda>r c. Fin 0)"
  using assms by (simp_all add: compute_attn_1rowblock_def Let_def)

text \<open>Where the sentinels are written. For a row of the query tile below
  \<open>actual_seqlen_q\<close> whose keys are all masked, the dense kernel writes the output \<open>0\<close> and
  the log-sum-exp plus infinity when its range of K/V tiles is empty and the kernel is
  causal, local or not \<open>Is_even_MN\<close> (the condition of its early exit), and when the range
  is not empty (shown for kernels without dropout); a split of the split kernel writes the
  partial output \<open>0\<close> and the partial log-sum-exp minus infinity, for an empty range or
  not.\<close>

lemma masked_rows_sentinel:
  fixes f :: flags and t :: traits and p :: params and binfo :: block_info and mem :: gmemory
    and bidb bidh m_block s ns :: int and i c :: nat
    and sm seed_offset blockIdx rng apply_dropout slopes rotary
  defines "dense \<equiv> compute_attn_1rowblock f t p binfo mem sm seed_offset blockIdx rng
                      apply_dropout bidb bidh m_block"
  defines "part \<equiv> compute_attn_1rowblock_splitkv f t p binfo mem slopes sm rotary bidb bidh
                     m_block s ns"
  assumes Br: "0 < kBlockM t" and Bc: "0 < kBlockN t"
    and shape: "kBlockN t dvd kBlockM t \<or> kBlockM t dvd kBlockN t"
    and d: "0 \<le> params_d p" "params_d p \<le> int (kHeadDim t)"
      "Is_even_K f \<Longrightarrow> params_d p = int (kHeadDim t)"
    and scale: "0 < scale_softmax p" "scale_softmax_log2 p = scale_softmax p / ln 2"
    and even: "Is_even_MN f \<Longrightarrow> int (kBlockN t) dvd actual_seqlen_k binfo
                 \<and> int (kBlockM t) dvd actual_seqlen_q binfo"
    and causal: "Is_causal f \<Longrightarrow> \<not> Is_local f \<and> window_size_right p = 0"
    and i: "i < kBlockM t" "m_block * int (kBlockM t) + int i < actual_seqlen_q binfo"
    and c: "int c < params_d p"
    and masked: "\<forall>pos\<in>{0..<actual_seqlen_k binfo}.
        masked_out (Is_causal f) (Is_local f) False (make_mask p binfo 0)
          (m_block * int (kBlockM t) + int i) pos"
  shows "((Is_causal f \<or> Is_local f \<or> \<not> Is_even_MN f)
            \<and> n_block_max_dense f t p binfo m_block \<le> n_block_min_dense f t p binfo m_block
          \<longrightarrow> out_LSE dense i = Some PInf \<and> out_O dense i c = Some (Fin 0))
       \<and> (n_block_min_dense f t p binfo m_block < n_block_max_dense f t p binfo m_block
            \<and> \<not> Is_dropout f
          \<longrightarrow> out_LSE dense i = Some PInf \<and> out_O dense i c = Some (Fin 0))
       \<and> (Split f \<and> 0 \<le> s \<and> 0 < ns \<and> 0 \<le> seqlen_k p
          \<longrightarrow> out_LSE part i = Some MInf \<and> out_O part i c = Some (Fin 0))"
proof -
  let ?sk = "actual_seqlen_k binfo"
  let ?row = "m_block * int (kBlockM t) + int i"
  let ?max_M = "actual_seqlen_q binfo - m_block * int (kBlockM t)"
  from i have mb: "m_block * int (kBlockM t) < actual_seqlen_q binfo" and iM: "int i < ?max_M"
    by simp_all
  from c d have cH: "c < kHeadDim t" by simp
  have A: "out_LSE dense i = Some PInf \<and> out_O dense i c = Some (Fin 0)"
    if "Is_causal f \<or> Is_local f \<or> \<not> Is_even_MN f"
      "n_block_max_dense f t p binfo m_block \<le> n_block_min_dense f t p binfo m_block"
    using i(1) iM c cH
    by (simp add: dense_def dense_empty_range [OF mb that] store_rows_def store_tile_def)
  have B: "out_LSE dense i = Some PInf \<and> out_O dense i c = Some (Fin 0)"
    if r: "n_block_min_dense f t p binfo m_block < n_block_max_dense f t p binfo m_block"
      and nd: "\<not> Is_dropout f"
  proof -
    have w: "dense_weight f t p binfo mem bidb bidh m_block i pos = 0"
      if "pos \<in> {0..<?sk}" for pos
      using masked that by (simp add: dense_weight_def ref_weight_def)
    then have W: "(\<Sum>pos\<in>{0..<?sk}. dense_weight f t p binfo mem bidb bidh m_block i pos) = 0"
      by (intro sum.neutral) simp
    show ?thesis
      using dense_row(1) [OF Br Bc shape d scale nd even causal i r,
          where mem = mem and bidb = bidb and bidh = bidh]
        dense_row(2) [OF Br Bc shape d scale nd even causal i r c,
          where mem = mem and bidb = bidb and bidh = bidh]
      by (simp add: dense_def W)
  qed
  have C: "out_LSE part i = Some MInf \<and> out_O part i c = Some (Fin 0)"
    if sp: "Split f" and s: "0 \<le> s" "0 < ns" "0 \<le> seqlen_k p"
  proof -
    let ?J = "split_keys f t p binfo m_block s ns"
    have l: "split_logit f t p binfo mem slopes rotary bidb bidh m_block s ns i pos = MInf"
      if pos: "pos \<in> ?J" for pos
    proof -
      from pos have p0: "0 \<le> pos" by (rule split_keys_bounds [OF Bc s(2,3,1)])
      have "masked_out (Is_causal f) (Is_local f) False (make_mask p binfo 0) ?row pos"
      proof (cases "pos < ?sk")
        case True
        with p0 masked show ?thesis by simp
      next
        case False
        then show ?thesis by (intro masked_out_seqlen_k) (simp add: make_mask_def)
      qed
      then have "masked_out (Is_causal f) (Is_local f) False
                   (make_mask p binfo (alibi_slope_split f p slopes bidb bidh)) ?row pos"
        using masked_out_slope [where s = "alibi_slope_split f p slopes bidb bidh" and s' = 0
            and p = p and binfo = binfo and row = ?row and col = pos]
        by blast
      then show ?thesis by (simp add: split_logit_def logit_def)
    qed
    have W: "(\<Sum>pos\<in>?J. exp_weight (scale_softmax p)
                 (split_logit f t p binfo mem slopes rotary bidb bidh m_block s ns i pos)) = 0"
      by (intro sum.neutral) (simp add: l exp_weight_def)
    have col: "Is_even_K f \<or> int c < params_d p" using c by simp
    show ?thesis
      using split_row_any(1) [OF Br Bc shape scale even causal i s,
          where mem = mem and slopes = slopes and rotary = rotary and bidb = bidb
            and bidh = bidh]
        split_row_any(2) [OF Br Bc shape scale even causal i s cH col,
          where mem = mem and slopes = slopes and rotary = rotary and bidb = bidb
            and bidh = bidh]
        sp
      by (simp add: part_def W)
  qed
  from A B C show ?thesis by blast
qed



subsection \<open>Appending to the cache\<close>

























end
